theory Spec2Isabelle
  imports Main
begin

unbundle bit_operations_syntax

section \<open>Open files and file tables of kern/syscall/file.c\<close>

subsection \<open>Data model\<close>

text \<open>
  Pointers are addresses; a pointer that may be NULL is an \<open>option\<close>. An \<open>openfile\<close> is
  the kmalloc'ed struct the file table points at, a \<open>vnode\<close> is the VFS object returned by
  \<open>vfs_open\<close>, a \<open>lockid\<close> is the lock returned by \<open>lock_create\<close>.
\<close>

type_synonym addr = nat
type_synonym vnode = nat
type_synonym lockid = nat

text \<open>
  The non-zero error codes of kern/errno.h. Their numbers are not part of file.c; the three
  codes the file names are distinct constructors, \<open>EVFS k\<close> is any other code the VFS layer
  reports.
\<close>

datatype errno = ENOMEM | EMFILE | EBADF | EVFS nat

text \<open>
  The int a function returns: \<open>Fail e\<close> is the non-zero code \<open>e\<close>, \<open>OK x\<close> is 0 together
  with the value written through the out-parameter (\<open>()\<close> when there is none).
\<close>

datatype 'a ret = Fail errno | OK 'a

text \<open>
  A run that does not return: a failed KASSERT (kernel panic), or a dereference of NULL or of
  freed memory.
\<close>

datatype abort = KASSERT_failed | Bad_pointer

text \<open>
  The fields file.c reads and writes in \<open>openfile\<close>. The struct declaration (filetable.h) is
  not among the sources. \<open>refs\<close> is a C int of 32 bits in two's complement: its values lie
  between -2147483648 and 2147483647, and \<open>refs++\<close> at 2147483647 gives -2147483648. The
  model keeps the value as an integer and writes the wrap-around out, with \<open>int_wrap\<close>,
  where file.c increments. \<open>refs--\<close> runs only after \<open>refs > 1\<close> has been checked, where it
  cannot leave the range. \<open>offset\<close> is only ever set to 0.
\<close>

record openfile =
  vn :: vnode
  lock :: lockid
  offset :: int
  mode :: int
  refs :: int

text \<open>The value a 32-bit C int holds when the result of its arithmetic is \<open>x\<close>.\<close>

definition int_wrap :: "int \<Rightarrow> int" where
  "int_wrap x = (x + 2147483648) mod 4294967296 - 2147483648"

text \<open>\<open>struct filetable\<close>: the array \<open>handles\<close>, read and written at indices in [0, OPEN_MAX) only.\<close>

type_synonym filetable = "int \<Rightarrow> addr option"

text \<open>
  The kernel state file.c works on: the kmalloc'ed openfiles, the locks that exist, for every
  vnode the number of references this code holds on it (one more by each successful
  \<open>vfs_open\<close>, one less by each \<open>vfs_close\<close>), and \<open>curproc->files\<close>.
\<close>

record kstate =
  heap :: "addr \<rightharpoonup> openfile"
  locks :: "lockid set"
  vnopen :: "vnode \<Rightarrow> int"
  files :: "filetable option"

text \<open>
  The constants of kern/limits.h and kern/fcntl.h that file.c uses. Their values are not in
  the sources, so they are parameters of every function.
\<close>

record kconsts =
  OPEN_MAX :: int
  O_ACCMODE :: int
  O_RDONLY :: int
  O_WRONLY :: int
  O_RDWR :: int

text \<open>
  What the collaborators answer during one \<open>file_open\<close>: the result of \<open>vfs_open\<close> for the
  arguments it is called with, the status the VFS reports for a \<open>vfs_close\<close>, the block
  \<open>kmalloc\<close> returns (NULL is \<open>None\<close>) with its uninitialised content, and the lock
  \<open>lock_create\<close> returns.
\<close>

record env =
  vfs_res :: "string \<Rightarrow> int \<Rightarrow> int \<Rightarrow> errno + vnode"
  vfs_close_res :: "unit ret"
  kmalloc_res :: "addr option"
  kmalloc_junk :: openfile
  lock_res :: "lockid option"

subsection \<open>The collaborators\<close>

definition vfs_open :: "env \<Rightarrow> string \<Rightarrow> int \<Rightarrow> int \<Rightarrow> kstate \<Rightarrow> vnode ret \<times> kstate" where
  "vfs_open e filename flags md s =
     (case vfs_res e filename flags md of
        Inl r \<Rightarrow> (Fail r, s)
      | Inr v \<Rightarrow> (OK v, s\<lparr>vnopen := (vnopen s)(v := vnopen s v + 1)\<rparr>))"

definition vfs_close :: "unit ret \<Rightarrow> vnode \<Rightarrow> kstate \<Rightarrow> unit ret \<times> kstate" where
  "vfs_close st v s = (st, s\<lparr>vnopen := (vnopen s)(v := vnopen s v - 1)\<rparr>)"

definition kfree :: "addr \<Rightarrow> kstate \<Rightarrow> kstate" where
  "kfree a s = s\<lparr>heap := (heap s)(a := None)\<rparr>"

definition lock_create :: "lockid \<Rightarrow> kstate \<Rightarrow> kstate" where
  "lock_create l s = s\<lparr>locks := insert l (locks s)\<rparr>"

definition lock_destroy :: "lockid \<Rightarrow> kstate \<Rightarrow> kstate" where
  "lock_destroy l s = s\<lparr>locks := locks s - {l}\<rparr>"

text \<open>
  The model is sequential: \<open>lock_acquire\<close> and \<open>lock_release\<close> around an update leave the
  state as it is and do not appear below.
\<close>

subsection \<open>filetable_placefile and filetable_findfile\<close>

text \<open>The loop of \<open>filetable_placefile\<close>, from index \<open>i\<close>; \<open>ft\<close> is \<open>curproc->files\<close>.\<close>

function placefile_loop :: "kconsts \<Rightarrow> addr \<Rightarrow> int \<Rightarrow> kstate \<Rightarrow> abort + (int ret \<times> kstate)" where
  "placefile_loop K file i s =
     (if i < OPEN_MAX K then
        (case files s of
           None \<Rightarrow> Inl Bad_pointer
         | Some ft \<Rightarrow>
             if ft i = None then Inr (OK i, s\<lparr>files := Some (ft(i \<mapsto> file))\<rparr>)
             else placefile_loop K file (i + 1) s)
      else Inr (Fail EMFILE, s))"
  by pat_completeness auto
termination
  by (relation "measure (\<lambda>(K, file, i, s). nat (OPEN_MAX K - i))") auto

declare placefile_loop.simps [simp del]

definition filetable_placefile :: "kconsts \<Rightarrow> addr \<Rightarrow> kstate \<Rightarrow> abort + (int ret \<times> kstate)" where
  "filetable_placefile K file s = placefile_loop K file 0 s"

definition filetable_findfile :: "kconsts \<Rightarrow> int \<Rightarrow> kstate \<Rightarrow> abort + addr ret" where
  "filetable_findfile K fd s =
     (if fd < 0 \<or> fd \<ge> OPEN_MAX K then Inr (Fail EBADF)
      else case files s of
             None \<Rightarrow> Inl Bad_pointer
           | Some ft \<Rightarrow> (case ft fd of None \<Rightarrow> Inr (Fail EBADF) | Some file \<Rightarrow> Inr (OK file)))"

subsection \<open>file_open\<close>

definition file_open :: "kconsts \<Rightarrow> env \<Rightarrow> string \<Rightarrow> int \<Rightarrow> int \<Rightarrow> kstate \<Rightarrow> abort + (int ret \<times> kstate)" where
  "file_open K e filename flags md s =
     (case vfs_open e filename flags md s of
        (Fail r, s0) \<Rightarrow> Inr (Fail r, s0)
      | (OK v, s0) \<Rightarrow>
          (case kmalloc_res e of
             None \<Rightarrow> Inr (Fail ENOMEM, snd (vfs_close (vfs_close_res e) v s0))
           | Some file \<Rightarrow>
               let s1 = s0\<lparr>heap := (heap s0)(file \<mapsto> kmalloc_junk e)\<rparr> in
               (case lock_res e of
                  None \<Rightarrow> Inr (Fail ENOMEM, kfree file (snd (vfs_close (vfs_close_res e) v s1)))
                | Some l \<Rightarrow>
                    let f = (kmalloc_junk e)\<lparr>lock := l, vn := v, offset := 0,
                              mode := flags AND O_ACCMODE K, refs := 1\<rparr>;
                        s2 = (lock_create l s1)\<lparr>heap := (heap s1)(file \<mapsto> f)\<rparr>
                    in
                    if \<not> (mode f = O_RDONLY K \<or> mode f = O_WRONLY K \<or> mode f = O_RDWR K)
                    then Inl KASSERT_failed
                    else
                      (case filetable_placefile K file s2 of
                         Inl a \<Rightarrow> Inl a
                       | Inr (Fail r, s3) \<Rightarrow>
                           Inr (Fail r,
                                snd (vfs_close (vfs_close_res e) v (kfree file (lock_destroy l s3))))
                       | Inr (OK fd, s3) \<Rightarrow> Inr (OK fd, s3)))))"

subsection \<open>file_doclose and file_close\<close>

text \<open>
  \<open>st\<close> is the status the VFS reports for the \<open>vfs_close\<close> of the last close; the call is an
  expression statement, so the status is dropped.
\<close>

definition file_doclose :: "unit ret \<Rightarrow> addr \<Rightarrow> kstate \<Rightarrow> abort + (unit ret \<times> kstate)" where
  "file_doclose st file s =
     (case heap s file of
        None \<Rightarrow> Inl Bad_pointer
      | Some f \<Rightarrow>
          if refs f = 1 then
            Inr (OK (), kfree file (lock_destroy (lock f) (snd (vfs_close st (vn f) s))))
          else if refs f > 1 then
            Inr (OK (), s\<lparr>heap := (heap s)(file \<mapsto> f\<lparr>refs := refs f - 1\<rparr>)\<rparr>)
          else Inl KASSERT_failed)"

text \<open>
  \<open>curproc->files->handles[fd] = NULL\<close> reads \<open>curproc->files\<close> again after the release.
\<close>

definition file_close :: "kconsts \<Rightarrow> unit ret \<Rightarrow> int \<Rightarrow> kstate \<Rightarrow> abort + (unit ret \<times> kstate)" where
  "file_close K st fd s =
     (case filetable_findfile K fd s of
        Inl a \<Rightarrow> Inl a
      | Inr (Fail r) \<Rightarrow> Inr (Fail r, s)
      | Inr (OK file) \<Rightarrow>
          (case file_doclose st file s of
             Inl a \<Rightarrow> Inl a
           | Inr (Fail r, s1) \<Rightarrow> Inr (Fail r, s1)
           | Inr (OK u, s1) \<Rightarrow>
               (case files s1 of
                  None \<Rightarrow> Inl Bad_pointer
                | Some ft \<Rightarrow> Inr (OK (), s1\<lparr>files := Some (ft(fd := None))\<rparr>))))"

subsection \<open>filetable_init\<close>

text \<open>The loop that NULLs the fresh table out, from index \<open>fd\<close>.\<close>

function init_loop :: "kconsts \<Rightarrow> int \<Rightarrow> filetable \<Rightarrow> filetable" where
  "init_loop K fd ft = (if fd < OPEN_MAX K then init_loop K (fd + 1) (ft(fd := None)) else ft)"
  by pat_completeness auto
termination
  by (relation "measure (\<lambda>(K, fd, ft). nat (OPEN_MAX K - fd))") auto

declare init_loop.simps [simp del]

text \<open>
  \<open>tres\<close> is what \<open>kmalloc(sizeof(struct filetable))\<close> returns: NULL, or a block with the
  uninitialised content given. \<open>e1\<close>, \<open>e2\<close>, \<open>e3\<close> are the collaborators' answers during the
  three calls of \<open>file_open\<close>. \<open>strcpy\<close> into \<open>path\<close> copies the name, whose length the
  assertions bound by \<open>sizeof(path) = 32\<close>.
\<close>

definition filetable_init ::
  "kconsts \<Rightarrow> filetable option \<Rightarrow> env \<Rightarrow> env \<Rightarrow> env \<Rightarrow> string \<Rightarrow> string \<Rightarrow> string \<Rightarrow> kstate
     \<Rightarrow> abort + (unit ret \<times> kstate)" where
  "filetable_init K tres e1 e2 e3 inpath outpath errpath s =
     (if \<not> length inpath < 32 then Inl KASSERT_failed
      else if \<not> length outpath < 32 then Inl KASSERT_failed
      else if \<not> length errpath < 32 then Inl KASSERT_failed
      else if files s \<noteq> None then Inl KASSERT_failed
      else
        (case tres of
           None \<Rightarrow> Inr (Fail ENOMEM, s)
         | Some junk \<Rightarrow>
             let s0 = s\<lparr>files := Some (init_loop K 0 junk)\<rparr> in
             (case file_open K e1 inpath (O_RDONLY K) 0 s0 of
                Inl a \<Rightarrow> Inl a
              | Inr (Fail r, s1) \<Rightarrow> Inr (Fail r, s1)
              | Inr (OK fd1, s1) \<Rightarrow>
                  (case file_open K e2 outpath (O_WRONLY K) 0 s1 of
                     Inl a \<Rightarrow> Inl a
                   | Inr (Fail r, s2) \<Rightarrow> Inr (Fail r, s2)
                   | Inr (OK fd2, s2) \<Rightarrow>
                       (case file_open K e3 errpath (O_WRONLY K) 0 s2 of
                          Inl a \<Rightarrow> Inl a
                        | Inr (Fail r, s3) \<Rightarrow> Inr (Fail r, s3)
                        | Inr (OK fd3, s3) \<Rightarrow> Inr (OK (), s3))))))"

subsection \<open>filetable_copy\<close>

text \<open>
  The loop of \<open>filetable_copy\<close>, from index \<open>fd\<close>: \<open>ft\<close> is the table of the process,
  \<open>cp\<close> the copy built so far.
\<close>

function copy_loop :: "kconsts \<Rightarrow> int \<Rightarrow> filetable \<Rightarrow> filetable \<Rightarrow> kstate \<Rightarrow> abort + (filetable \<times> kstate)" where
  "copy_loop K fd ft cp s =
     (if fd < OPEN_MAX K then
        (case ft fd of
           Some file \<Rightarrow>
             (case heap s file of
                None \<Rightarrow> Inl Bad_pointer
              | Some f \<Rightarrow>
                  copy_loop K (fd + 1) ft (cp(fd \<mapsto> file))
                    (s\<lparr>heap := (heap s)(file \<mapsto> f\<lparr>refs := int_wrap (refs f + 1)\<rparr>)\<rparr>))
         | None \<Rightarrow> copy_loop K (fd + 1) ft (cp(fd := None)) s)
      else Inr (cp, s))"
  by pat_completeness auto
termination
  by (relation "measure (\<lambda>(K, fd, ft, cp, s). nat (OPEN_MAX K - fd))") auto

declare copy_loop.simps [simp del]

text \<open>\<open>tres\<close> is what \<open>kmalloc\<close> returns for the copy; the result carries \<open>*copy\<close>.\<close>

definition filetable_copy ::
  "kconsts \<Rightarrow> filetable option \<Rightarrow> kstate \<Rightarrow> abort + (filetable option ret \<times> kstate)" where
  "filetable_copy K tres s =
     (case files s of
        None \<Rightarrow> Inr (OK None, s)
      | Some ft \<Rightarrow>
          (case tres of
             None \<Rightarrow> Inr (Fail ENOMEM, s)
           | Some junk \<Rightarrow>
               (case copy_loop K 0 ft junk s of
                  Inl a \<Rightarrow> Inl a
                | Inr (cp, s') \<Rightarrow> Inr (OK (Some cp), s'))))"

subsection \<open>filetable_destroy\<close>




subsection \<open>filetable_dup2file\<close>

text \<open>
  \<open>ft\<close> points at the table of the process, which \<open>file_close\<close> updates in place: the final
  store into \<open>ft->handles[newfd]\<close> goes to the table as \<open>file_close\<close> left it.
\<close>

definition filetable_dup2file :: "kconsts \<Rightarrow> unit ret \<Rightarrow> int \<Rightarrow> int \<Rightarrow> kstate \<Rightarrow> abort + (unit ret \<times> kstate)" where
  "filetable_dup2file K st oldfd newfd s =
     (if oldfd < 0 \<or> oldfd \<ge> OPEN_MAX K \<or> newfd < 0 \<or> newfd \<ge> OPEN_MAX K then Inr (Fail EBADF, s)
      else
        (case files s of
           None \<Rightarrow> Inl Bad_pointer
         | Some ft \<Rightarrow>
             (case ft oldfd of
                None \<Rightarrow> Inr (Fail EBADF, s)
              | Some file \<Rightarrow>
                  if oldfd = newfd then Inr (OK (), s)
                  else
                    (case (if ft newfd \<noteq> None then file_close K st newfd s else Inr (OK (), s)) of
                       Inl a \<Rightarrow> Inl a
                     | Inr (Fail r, s1) \<Rightarrow> Inr (Fail r, s1)
                     | Inr (OK u, s1) \<Rightarrow>
                         (case heap s1 file of
                            None \<Rightarrow> Inl Bad_pointer
                          | Some f \<Rightarrow>
                              (case files s1 of
                                 None \<Rightarrow> Inl Bad_pointer
                               | Some ft1 \<Rightarrow>
                                   Inr (OK (),
                                        s1\<lparr>heap := (heap s1)(file \<mapsto> f\<lparr>refs := int_wrap (refs f + 1)\<rparr>),
                                           files := Some (ft1(newfd \<mapsto> file))\<rparr>)))))))"

subsection \<open>Notions used in the statements\<close>

text \<open>\<open>m\<close> is the smallest index of an empty slot of the table.\<close>

definition lowest_free :: "kconsts \<Rightarrow> filetable \<Rightarrow> int \<Rightarrow> bool" where
  "lowest_free K ft m \<longleftrightarrow>
     0 \<le> m \<and> m < OPEN_MAX K \<and> ft m = None \<and> (\<forall>j. 0 \<le> j \<and> j < m \<longrightarrow> ft j \<noteq> None)"

text \<open>The process has a table and none of its slots in [0, OPEN_MAX) is empty.\<close>

definition table_full :: "kconsts \<Rightarrow> kstate \<Rightarrow> bool" where
  "table_full K s \<longleftrightarrow>
     (case files s of None \<Rightarrow> False
      | Some ft \<Rightarrow> \<forall>i. 0 \<le> i \<and> i < OPEN_MAX K \<longrightarrow> ft i \<noteq> None)"

text \<open>The access bits of \<open>flags\<close> are one of the three modes the assertion of \<open>file_open\<close> admits.\<close>

definition valid_accmode :: "kconsts \<Rightarrow> int \<Rightarrow> bool" where
  "valid_accmode K flags \<longleftrightarrow>
     flags AND O_ACCMODE K = O_RDONLY K \<or> flags AND O_ACCMODE K = O_WRONLY K \<or>
     flags AND O_ACCMODE K = O_RDWR K"

text \<open>
  What \<open>kmalloc\<close> and \<open>lock_create\<close> hand out is not in use: the block is not an allocated
  openfile, the lock does not exist yet.
\<close>

definition env_fresh :: "env \<Rightarrow> kstate \<Rightarrow> bool" where
  "env_fresh e s \<longleftrightarrow>
     (case kmalloc_res e of None \<Rightarrow> True | Some a \<Rightarrow> heap s a = None) \<and>
     (case lock_res e of None \<Rightarrow> True | Some l \<Rightarrow> l \<notin> locks s)"

text \<open>
  The state once \<open>file_open\<close> holds its three resources: one more reference on the vnode
  \<open>v\<close>, the lock \<open>l\<close>, and the openfile \<open>f\<close> at address \<open>a\<close>.
\<close>

definition allocated :: "kstate \<Rightarrow> vnode \<Rightarrow> addr \<Rightarrow> lockid \<Rightarrow> openfile \<Rightarrow> kstate" where
  "allocated s v a l f =
     s\<lparr>vnopen := (vnopen s)(v := vnopen s v + 1), locks := insert l (locks s),
       heap := (heap s)(a \<mapsto> f)\<rparr>"

text \<open>The openfile as \<open>file_open\<close> initialises it.\<close>

definition fresh_openfile :: "kconsts \<Rightarrow> int \<Rightarrow> vnode \<Rightarrow> lockid \<Rightarrow> openfile" where
  "fresh_openfile K flags v l =
     \<lparr>vn = v, lock = l, offset = 0, mode = flags AND O_ACCMODE K, refs = 1\<rparr>"

text \<open>Every openfile that exists has a refcount of at least 1.\<close>

definition refs_ok :: "kstate \<Rightarrow> bool" where
  "refs_ok s \<longleftrightarrow> (\<forall>a f. heap s a = Some f \<longrightarrow> 1 \<le> refs f)"

text \<open>
  The state after the openfile \<open>f\<close> at address \<open>file\<close> has been destroyed: the reference on
  its vnode is given back to the VFS, its lock is destroyed and its memory is freed.
\<close>

definition destroy_handle :: "addr \<Rightarrow> openfile \<Rightarrow> kstate \<Rightarrow> kstate" where
  "destroy_handle file f s =
     s\<lparr>vnopen := (vnopen s)(vn f := vnopen s (vn f) - 1), locks := locks s - {lock f},
       heap := (heap s)(file := None)\<rparr>"

text \<open>The state after one reference on the openfile \<open>f\<close> at address \<open>file\<close> has been dropped.\<close>

definition drop_ref :: "addr \<Rightarrow> openfile \<Rightarrow> kstate \<Rightarrow> kstate" where
  "drop_ref file f s = s\<lparr>heap := (heap s)(file \<mapsto> f\<lparr>refs := refs f - 1\<rparr>)\<rparr>"

text \<open>
  The state after one more reference on the openfile \<open>f\<close> at address \<open>file\<close> has been taken,
  by \<open>refs++\<close>.
\<close>

definition add_ref :: "addr \<Rightarrow> openfile \<Rightarrow> kstate \<Rightarrow> kstate" where
  "add_ref file f s = s\<lparr>heap := (heap s)(file \<mapsto> f\<lparr>refs := int_wrap (refs f + 1)\<rparr>)\<rparr>"

text \<open>The number of slots in [\<open>i\<close>, OPEN_MAX) of the table that hold the openfile at \<open>file\<close>.\<close>

definition slots_from :: "kconsts \<Rightarrow> int \<Rightarrow> filetable \<Rightarrow> addr \<Rightarrow> nat" where
  "slots_from K i ft file = length (filter (\<lambda>fd. ft fd = Some file) [i..OPEN_MAX K - 1])"

text \<open>The value of a C int after \<open>n\<close> executions of \<open>++\<close>, starting from \<open>r\<close>.\<close>

definition incr_times :: "nat \<Rightarrow> int \<Rightarrow> int" where
  "incr_times n r = ((\<lambda>x. int_wrap (x + 1)) ^^ n) r"

text \<open>
  The number of slots of the table of the process that hold the openfile at \<open>file\<close>; none
  when the process has no table.
\<close>

definition slots :: "kconsts \<Rightarrow> kstate \<Rightarrow> addr \<Rightarrow> nat" where
  "slots K s file = (case files s of None \<Rightarrow> 0 | Some ft \<Rightarrow> slots_from K 0 ft file)"

text \<open>
  The refcounts count the references. \<open>others file\<close> is the number of references on the
  openfile at \<open>file\<close> that are held outside the table of the process, in the tables made by
  \<open>filetable_copy\<close>. Every openfile that exists has a refcount of at least 1, which is the
  number of slots of the table of the process that hold it plus the number of references
  held elsewhere; and nothing refers to an address where no openfile exists.
\<close>

definition counted :: "kconsts \<Rightarrow> (addr \<Rightarrow> nat) \<Rightarrow> kstate \<Rightarrow> bool" where
  "counted K others s \<longleftrightarrow>
     (\<forall>a. case heap s a of
            None \<Rightarrow> slots K s a = 0 \<and> others a = 0
          | Some f \<Rightarrow> 1 \<le> refs f \<and> refs f = int (slots K s a) + int (others a))"


text \<open>Every occupied slot in [0, OPEN_MAX) of the table refers to an openfile that exists.\<close>

definition table_live :: "kconsts \<Rightarrow> filetable \<Rightarrow> kstate \<Rightarrow> bool" where
  "table_live K ft s \<longleftrightarrow>
     (\<forall>fd file. 0 \<le> fd \<and> fd < OPEN_MAX K \<and> ft fd = Some file \<longrightarrow> heap s file \<noteq> None)"

subsection \<open>Example constants and states\<close>

text \<open>The flag values of OS/161 and a table of four slots.\<close>

definition K0 :: kconsts where
  "K0 = \<lparr>OPEN_MAX = 4, O_ACCMODE = 3, O_RDONLY = 0, O_WRONLY = 1, O_RDWR = 2\<rparr>"

definition h10 :: openfile where
  "h10 = \<lparr>vn = 30, lock = 20, offset = 0, mode = 0, refs = 1\<rparr>"

definition h11 :: openfile where
  "h11 = \<lparr>vn = 31, lock = 21, offset = 0, mode = 1, refs = 2\<rparr>"

definition ftA :: filetable where
  "ftA = (\<lambda>fd. None)(0 \<mapsto> 10, 2 \<mapsto> 11)"

definition sA :: kstate where
  "sA = \<lparr>heap = [10 \<mapsto> h10, 11 \<mapsto> h11], locks = {20, 21},
          vnopen = (\<lambda>v. 0)(30 := 1, 31 := 1), files = Some ftA\<rparr>"





definition ftFull :: filetable where
  "ftFull = (\<lambda>fd. None)(0 \<mapsto> 10, 1 \<mapsto> 11, 2 \<mapsto> 11, 3 \<mapsto> 11)"

definition sFull :: kstate where
  "sFull = \<lparr>heap = [10 \<mapsto> h10, 11 \<mapsto> h11\<lparr>refs := 3\<rparr>], locks = {20, 21},
          vnopen = (\<lambda>v. 0)(30 := 1, 31 := 1), files = Some ftFull\<rparr>"

text \<open>One descriptor on an openfile whose refcount is the largest value of a C int.\<close>

definition ftMax :: filetable where
  "ftMax = (\<lambda>fd. None)(0 \<mapsto> 10)"

definition sMax :: kstate where
  "sMax = \<lparr>heap = [10 \<mapsto> h10\<lparr>refs := 2147483647\<rparr>], locks = {20},
          vnopen = (\<lambda>v. 0)(30 := 1), files = Some ftMax\<rparr>"

text \<open>Collaborators that succeed: vnode 32, block 12, lock 22.\<close>

definition e0 :: env where
  "e0 = \<lparr>vfs_res = (\<lambda>filename flags md. Inr 32), vfs_close_res = OK (),
          kmalloc_res = Some 12, kmalloc_junk = h10, lock_res = Some 22\<rparr>"

text \<open>\<open>sA\<close> after a successful \<open>file_open\<close> with \<open>e0\<close> and flags 1.\<close>

definition sA1 :: kstate where
  "sA1 = (allocated sA 32 12 22 (fresh_openfile K0 1 32 22))\<lparr>files := Some (ftA(1 \<mapsto> 12))\<rparr>"

text \<open>Collaborators for the second and the third \<open>file_open\<close> of a bootstrap, and a process without a table.\<close>

definition eOut :: env where
  "eOut = \<lparr>vfs_res = (\<lambda>filename flags md. Inr 33), vfs_close_res = OK (),
            kmalloc_res = Some 13, kmalloc_junk = h10, lock_res = Some 23\<rparr>"

definition eErr :: env where
  "eErr = \<lparr>vfs_res = (\<lambda>filename flags md. Inr 34), vfs_close_res = OK (),
            kmalloc_res = Some 14, kmalloc_junk = h11, lock_res = Some 24\<rparr>"

definition sBoot :: kstate where
  "sBoot = \<lparr>heap = Map.empty, locks = {}, vnopen = (\<lambda>v. 0), files = None\<rparr>"

section \<open>Properties\<close>

subsection \<open>The arithmetic of a C int\<close>

lemma int_wrap_id:
  assumes "- 2147483648 \<le> x" "x \<le> 2147483647"
  shows "int_wrap x = x"
  using assms by (simp add: int_wrap_def)

lemma int_wrap_max: "int_wrap (2147483647 + 1) = - 2147483648"
  by (simp add: int_wrap_def)

lemma incr_times_0: "incr_times 0 r = r"
  by (simp add: incr_times_def)

lemma incr_times_Suc: "incr_times (Suc n) r = incr_times n (int_wrap (r + 1))"
  unfolding incr_times_def using funpow_swap1[of "\<lambda>x. int_wrap (x + 1)" n r] by simp

lemma incr_times_no_overflow:
  assumes "- 2147483648 \<le> r" "r + int n \<le> 2147483647"
  shows "incr_times n r = r + int n"
  using assms
proof (induction n arbitrary: r)
  case 0
  then show ?case by (simp add: incr_times_0)
next
  case (Suc n)
  from Suc.prems have w: "int_wrap (r + 1) = r + 1" by (intro int_wrap_id) simp_all
  from Suc.prems have "incr_times n (r + 1) = r + 1 + int n" by (intro Suc.IH) simp_all
  with w show ?case by (simp add: incr_times_Suc)
qed

subsection \<open>filetable_placefile\<close>

lemma placefile_loop_finds:
  "files s = Some ft \<Longrightarrow> \<exists>m. i \<le> m \<and> m < OPEN_MAX K \<and> ft m = None \<Longrightarrow>
   \<exists>m. i \<le> m \<and> m < OPEN_MAX K \<and> ft m = None \<and> (\<forall>j. i \<le> j \<and> j < m \<longrightarrow> ft j \<noteq> None) \<and>
       placefile_loop K file i s = Inr (OK m, s\<lparr>files := Some (ft(m \<mapsto> file))\<rparr>)"
proof (induction K "file" i s rule: placefile_loop.induct)
  case (1 K fl i s)
  then obtain m0 where m0: "i \<le> m0" "m0 < OPEN_MAX K" "ft m0 = None" by blast
  then have lt: "i < OPEN_MAX K" by simp
  show ?case
  proof (cases "ft i = None")
    case True
    with lt "1.prems"(1) have r: "placefile_loop K fl i s = Inr (OK i, s\<lparr>files := Some (ft(i \<mapsto> fl))\<rparr>)"
      by (simp add: placefile_loop.simps)
    show ?thesis
    proof (intro exI[of _ i] conjI allI impI)
      fix j assume "i \<le> j \<and> j < i"
      then show "ft j \<noteq> None" by linarith
    qed (rule order_refl, rule lt, rule True, rule r)
  next
    case False
    with m0 have "i + 1 \<le> m0" by (cases "m0 = i") auto
    with m0 have ex: "\<exists>m. i + 1 \<le> m \<and> m < OPEN_MAX K \<and> ft m = None" by blast
    from "1.IH"[OF lt "1.prems"(1) False "1.prems"(1) ex]
    obtain m where m: "i + 1 \<le> m" "m < OPEN_MAX K" "ft m = None"
      "\<forall>j. i + 1 \<le> j \<and> j < m \<longrightarrow> ft j \<noteq> None"
      "placefile_loop K fl (i + 1) s = Inr (OK m, s\<lparr>files := Some (ft(m \<mapsto> fl))\<rparr>)" by blast
    have all: "\<forall>j. i \<le> j \<and> j < m \<longrightarrow> ft j \<noteq> None"
    proof (intro allI impI)
      fix j assume "i \<le> j \<and> j < m"
      then show "ft j \<noteq> None" using m(4) False by (cases "j = i") auto
    qed
    have step: "placefile_loop K fl i s = placefile_loop K fl (i + 1) s"
      using lt "1.prems"(1) False by (subst placefile_loop.simps) auto
    show ?thesis
    proof (intro exI[of _ m] conjI)
      show "i \<le> m" using m(1) by simp
      show "placefile_loop K fl i s = Inr (OK m, s\<lparr>files := Some (ft(m \<mapsto> fl))\<rparr>)"
        using step m(5) by simp
    qed (use m all in simp_all)
  qed
qed

lemma placefile_loop_full:
  "files s = Some ft \<Longrightarrow> \<forall>j. i \<le> j \<and> j < OPEN_MAX K \<longrightarrow> ft j \<noteq> None \<Longrightarrow>
   placefile_loop K file i s = Inr (Fail EMFILE, s)"
proof (induction K "file" i s rule: placefile_loop.induct)
  case (1 K fl i s)
  show ?case
  proof (cases "i < OPEN_MAX K")
    case True
    with "1.prems" have ne: "ft i \<noteq> None" by simp
    have "placefile_loop K fl (i + 1) s = Inr (Fail EMFILE, s)"
      using "1.IH"[OF True "1.prems"(1) ne "1.prems"(1)] "1.prems"(2) by simp
    then show ?thesis using True ne "1.prems"(1) by (subst placefile_loop.simps) auto
  next
    case False
    then show ?thesis by (subst placefile_loop.simps) simp
  qed
qed

text \<open>
  C6. When the table has an empty slot, \<open>filetable_placefile\<close> stores the handle in the
  empty slot of smallest index, changes no other slot and returns that index; when no slot in
  [0, OPEN_MAX) is empty it returns EMFILE and leaves the state, hence every slot, as it was.
\<close>

theorem filetable_placefile_lowest_free:
  assumes "files s = Some ft"
  shows "((\<exists>i. 0 \<le> i \<and> i < OPEN_MAX K \<and> ft i = None) \<longrightarrow>
            (\<exists>m. lowest_free K ft m \<and>
                 filetable_placefile K file s = Inr (OK m, s\<lparr>files := Some (ft(m \<mapsto> file))\<rparr>)))
       \<and> ((\<forall>i. 0 \<le> i \<and> i < OPEN_MAX K \<longrightarrow> ft i \<noteq> None) \<longrightarrow>
            filetable_placefile K file s = Inr (Fail EMFILE, s))"
proof (intro conjI impI)
  assume "\<exists>i. 0 \<le> i \<and> i < OPEN_MAX K \<and> ft i = None"
  from placefile_loop_finds[OF assms this, of "file"]
  show "\<exists>m. lowest_free K ft m \<and>
          filetable_placefile K file s = Inr (OK m, s\<lparr>files := Some (ft(m \<mapsto> file))\<rparr>)"
    unfolding lowest_free_def filetable_placefile_def by blast
next
  assume "\<forall>i. 0 \<le> i \<and> i < OPEN_MAX K \<longrightarrow> ft i \<noteq> None"
  from placefile_loop_full[OF assms this]
  show "filetable_placefile K file s = Inr (Fail EMFILE, s)"
    unfolding filetable_placefile_def .
qed

theorem filetable_placefile_lowest_free_witness:
  "files sA = Some ftA \<and>
   filetable_placefile K0 12 sA = Inr (OK 1, sA\<lparr>files := Some (ftA(1 \<mapsto> 12))\<rparr>) \<and>
   files sFull = Some ftFull \<and>
   filetable_placefile K0 12 sFull = Inr (Fail EMFILE, sFull)"
proof -
  have fA: "files sA = Some ftA" by (simp add: sA_def)
  have fF: "files sFull = Some ftFull" by (simp add: sFull_def)
  have exA: "\<exists>i. 0 \<le> i \<and> i < OPEN_MAX K0 \<and> ftA i = None"
    by (rule exI[of _ 1]) (simp add: K0_def ftA_def)
  from filetable_placefile_lowest_free[OF fA, of K0 12] exA
  obtain m where m: "lowest_free K0 ftA m"
    and r: "filetable_placefile K0 12 sA = Inr (OK m, sA\<lparr>files := Some (ftA(m \<mapsto> 12))\<rparr>)"
    by blast
  have "ftA 0 \<noteq> None" "ftA 1 = None" by (simp_all add: ftA_def)
  with m have "m = 1" unfolding lowest_free_def
    by (metis less_linear zero_le_one zero_less_one int_one_le_iff_zero_less not_le order_le_less)
  with r have rA: "filetable_placefile K0 12 sA = Inr (OK 1, sA\<lparr>files := Some (ftA(1 \<mapsto> 12))\<rparr>)"
    by simp
  have full: "\<forall>i. 0 \<le> i \<and> i < OPEN_MAX K0 \<longrightarrow> ftFull i \<noteq> None"
    by (auto simp: K0_def ftFull_def)
  from filetable_placefile_lowest_free[OF fF, of K0 12] full
  have rF: "filetable_placefile K0 12 sFull = Inr (Fail EMFILE, sFull)" by blast
  from fA rA fF rF show ?thesis by simp
qed

subsection \<open>file_open\<close>

lemma placefile_loop_Fail:
  "placefile_loop K file i s = Inr (Fail r, s') \<Longrightarrow> r = EMFILE \<and> s' = s"
proof (induct K "file" i s rule: placefile_loop.induct)
  case (1 K fl i s)
  show ?case
  proof (cases "i < OPEN_MAX K")
    case False
    with "1.prems" show ?thesis by (subst (asm) placefile_loop.simps) simp
  next
    case True
    show ?thesis
    proof (cases "files s")
      case None
      with True "1.prems" show ?thesis by (subst (asm) placefile_loop.simps) simp
    next
      case (Some ft)
      show ?thesis
      proof (cases "ft i")
        case None
        with True Some "1.prems" show ?thesis by (subst (asm) placefile_loop.simps) simp
      next
        case (Some a)
        with True \<open>files s = Some ft\<close> "1.prems"
        have "placefile_loop K fl (i + 1) s = Inr (Fail r, s')"
          by (subst (asm) placefile_loop.simps) simp
        with "1.hyps"[OF True \<open>files s = Some ft\<close>] Some show ?thesis by simp
      qed
    qed
  qed
qed

lemma placefile_loop_OK:
  "placefile_loop K file i s = Inr (OK m, s') \<Longrightarrow>
   \<exists>ft. files s = Some ft \<and> i \<le> m \<and> m < OPEN_MAX K \<and> ft m = None \<and>
        (\<forall>j. i \<le> j \<and> j < m \<longrightarrow> ft j \<noteq> None) \<and> s' = s\<lparr>files := Some (ft(m \<mapsto> file))\<rparr>"
proof (induct K "file" i s rule: placefile_loop.induct)
  case (1 K fl i s)
  show ?case
  proof (cases "i < OPEN_MAX K")
    case False
    with "1.prems" show ?thesis by (subst (asm) placefile_loop.simps) simp
  next
    case True
    show ?thesis
    proof (cases "files s")
      case None
      with True "1.prems" show ?thesis by (subst (asm) placefile_loop.simps) simp
    next
      case (Some ft)
      show ?thesis
      proof (cases "ft i")
        case None
        with True Some "1.prems" have mi: "m = i" and s': "s' = s\<lparr>files := Some (ft(i \<mapsto> fl))\<rparr>"
          by (subst (asm) placefile_loop.simps, simp)+
        have below: "\<forall>j. i \<le> j \<and> j < i \<longrightarrow> ft j \<noteq> None" by auto
        show ?thesis unfolding mi
          by (intro exI[of _ ft] conjI) (rule Some order_refl True None below s')+
      next
        case (Some a)
        with True \<open>files s = Some ft\<close> "1.prems"
        have "placefile_loop K fl (i + 1) s = Inr (OK m, s')"
          by (subst (asm) placefile_loop.simps) simp
        with "1.hyps"[OF True \<open>files s = Some ft\<close>] Some
        obtain ft' where ft': "files s = Some ft'" and m': "i + 1 \<le> m" "m < OPEN_MAX K" "ft' m = None"
          "\<forall>j. i + 1 \<le> j \<and> j < m \<longrightarrow> ft' j \<noteq> None" "s' = s\<lparr>files := Some (ft'(m \<mapsto> fl))\<rparr>"
          by blast
        from ft' \<open>files s = Some ft\<close> have "ft' = ft" by simp
        note m = m'[unfolded this]
        have "\<forall>j. i \<le> j \<and> j < m \<longrightarrow> ft j \<noteq> None"
        proof (intro allI impI)
          fix j assume "i \<le> j \<and> j < m"
          then show "ft j \<noteq> None" using m(4) Some by (cases "j = i") auto
        qed
        moreover have "i \<le> m" using m(1) by simp
        ultimately show ?thesis
          by (intro exI[of _ ft] conjI) (rule \<open>files s = Some ft\<close> m(2) m(3) m(5) | assumption)+
      qed
    qed
  qed
qed

lemma vnopen_restore: "s\<lparr>vnopen := (vnopen s)(v := vnopen s v + 1 - 1)\<rparr> = s"
  by simp

lemma file_open_kmalloc_fails:
  assumes "vfs_res e filename flags md = Inr v" "kmalloc_res e = None"
  shows "file_open K e filename flags md s = Inr (Fail ENOMEM, s)"
  using assms by (simp add: file_open_def vfs_open_def vfs_close_def)

lemma file_open_lock_fails:
  assumes "vfs_res e filename flags md = Inr v" "kmalloc_res e = Some a" "heap s a = None"
    "lock_res e = None"
  shows "file_open K e filename flags md s = Inr (Fail ENOMEM, s)"
  using assms by (simp add: file_open_def vfs_open_def vfs_close_def kfree_def Let_def fun_upd_idem)

lemma openfile_all_fields:
  "(junk :: openfile)\<lparr>lock := l, vn := v, offset := 0, mode := m, refs := 1\<rparr> =
   \<lparr>vn = v, lock = l, offset = 0, mode = m, refs = 1\<rparr>"
  by (cases junk) simp

lemma file_open_unfold:
  assumes "vfs_res e filename flags md = Inr v" "kmalloc_res e = Some a" "lock_res e = Some l"
  shows "file_open K e filename flags md s =
     (if \<not> valid_accmode K flags then Inl KASSERT_failed
      else case filetable_placefile K a (allocated s v a l (fresh_openfile K flags v l)) of
             Inl x \<Rightarrow> Inl x
           | Inr (Fail r, s3) \<Rightarrow>
               Inr (Fail r, snd (vfs_close (vfs_close_res e) v (kfree a (lock_destroy l s3))))
           | Inr (OK fd, s3) \<Rightarrow> Inr (OK fd, s3))"
  using assms
  by (simp add: file_open_def vfs_open_def lock_create_def Let_def valid_accmode_def
      allocated_def fresh_openfile_def openfile_all_fields)

lemma allocated_undo:
  assumes "heap s a = None" "l \<notin> locks s"
  shows "snd (vfs_close st v (kfree a (lock_destroy l (allocated s v a l f)))) = s"
  using assms
  by (simp add: allocated_def vfs_close_def kfree_def lock_destroy_def fun_upd_idem)

lemma files_allocated: "files (allocated s v a l f) = files s"
  by (simp add: allocated_def)

lemma file_open_table_full:
  assumes "vfs_res e filename flags md = Inr v" "kmalloc_res e = Some a" "heap s a = None"
    "lock_res e = Some l" "l \<notin> locks s" "valid_accmode K flags" "table_full K s"
  shows "file_open K e filename flags md s = Inr (Fail EMFILE, s)"
proof -
  from assms(7) obtain ft where ft: "files s = Some ft"
    and full: "\<forall>i. 0 \<le> i \<and> i < OPEN_MAX K \<longrightarrow> ft i \<noteq> None"
    by (auto simp: table_full_def split: option.splits)
  let ?s2 = "allocated s v a l (fresh_openfile K flags v l)"
  have fs2: "files ?s2 = Some ft" by (simp add: files_allocated ft)
  have pl: "filetable_placefile K a ?s2 = Inr (Fail EMFILE, ?s2)"
    unfolding filetable_placefile_def by (rule placefile_loop_full[OF fs2 full])
  show ?thesis
    by (simp only: file_open_unfold[OF assms(1,2,4)] assms(6) pl allocated_undo[OF assms(3,5)]
        sum.case prod.case ret.case not_True_eq_False if_False)
qed

lemma file_open_Fail_state:
  assumes "vfs_res e filename flags md = Inr v" "env_fresh e s"
    "file_open K e filename flags md s = Inr (Fail r, s')"
  shows "s' = s"
proof (cases "kmalloc_res e")
  case None
  with file_open_kmalloc_fails[OF assms(1) None] assms(3) show ?thesis by simp
next
  case (Some a)
  with assms(2) have ha: "heap s a = None" by (simp add: env_fresh_def)
  show ?thesis
  proof (cases "lock_res e")
    case None
    with file_open_lock_fails[OF assms(1) Some ha None] assms(3) show ?thesis by simp
  next
    case l: (Some l)
    with assms(2) have hl: "l \<notin> locks s" by (simp add: env_fresh_def)
    let ?s2 = "allocated s v a l (fresh_openfile K flags v l)"
    from assms(3) have va: "valid_accmode K flags"
      by (simp add: file_open_unfold[OF assms(1) Some l] split: if_splits)
    show ?thesis
    proof (cases "filetable_placefile K a ?s2")
      case (Inl x)
      with assms(3) va show ?thesis by (simp add: file_open_unfold[OF assms(1) Some l])
    next
      case (Inr p)
      obtain c s3 where p: "p = (c, s3)" by (cases p)
      show ?thesis
      proof (cases c)
        case (Fail r')
        with Inr p have "placefile_loop K a 0 ?s2 = Inr (Fail r', s3)"
          by (simp add: filetable_placefile_def)
        from placefile_loop_Fail[OF this] have "s3 = ?s2" by simp
        with assms(3) va Inr p Fail allocated_undo[OF ha hl] show ?thesis
          by (simp add: file_open_unfold[OF assms(1) Some l])
      next
        case (OK fd)
        with assms(3) va Inr p show ?thesis by (simp add: file_open_unfold[OF assms(1) Some l])
      qed
    qed
  qed
qed

lemma lowest_free_unique:
  assumes "lowest_free K ft m" "lowest_free K ft m'"
  shows "m = m'"
proof (rule ccontr)
  assume "m \<noteq> m'"
  then consider "m < m'" | "m' < m" by linarith
  then show False
  proof cases
    case 1
    with assms show False unfolding lowest_free_def by blast
  next
    case 2
    with assms show False unfolding lowest_free_def by blast
  qed
qed

lemma filetable_placefile_lowest:
  assumes "files s = Some ft" "lowest_free K ft m"
  shows "filetable_placefile K file s = Inr (OK m, s\<lparr>files := Some (ft(m \<mapsto> file))\<rparr>)"
proof -
  from assms(2) have "\<exists>i. 0 \<le> i \<and> i < OPEN_MAX K \<and> ft i = None"
    unfolding lowest_free_def by blast
  from placefile_loop_finds[OF assms(1) this, of "file"]
  obtain m' where m': "lowest_free K ft m'"
    and r: "placefile_loop K file 0 s = Inr (OK m', s\<lparr>files := Some (ft(m' \<mapsto> file))\<rparr>)"
    unfolding lowest_free_def by blast
  from lowest_free_unique[OF m' assms(2)] r show ?thesis
    unfolding filetable_placefile_def by (simp only:)
qed

lemma filetable_placefile_OK:
  assumes "filetable_placefile K file s = Inr (OK m, s')"
  obtains ft where "files s = Some ft" "lowest_free K ft m"
    "s' = s\<lparr>files := Some (ft(m \<mapsto> file))\<rparr>"
proof -
  from placefile_loop_OK[OF assms[unfolded filetable_placefile_def]]
  obtain ft where "files s = Some ft" "0 \<le> m" "m < OPEN_MAX K" "ft m = None"
    "\<forall>j. 0 \<le> j \<and> j < m \<longrightarrow> ft j \<noteq> None" "s' = s\<lparr>files := Some (ft(m \<mapsto> file))\<rparr>"
    by blast
  then show thesis using that unfolding lowest_free_def by blast
qed

lemma file_open_succeeds:
  assumes "vfs_res e filename flags md = Inr v" "kmalloc_res e = Some a" "lock_res e = Some l"
    "valid_accmode K flags" "files s = Some ft" "lowest_free K ft m"
  shows "file_open K e filename flags md s =
     Inr (OK m, (allocated s v a l (fresh_openfile K flags v l))\<lparr>files := Some (ft(m \<mapsto> a))\<rparr>)"
proof -
  let ?s2 = "allocated s v a l (fresh_openfile K flags v l)"
  have fs2: "files ?s2 = Some ft" by (simp add: files_allocated assms(5))
  show ?thesis
    by (simp only: file_open_unfold[OF assms(1,2,3)] assms(4)
        filetable_placefile_lowest[OF fs2 assms(6)]
        sum.case prod.case ret.case not_True_eq_False if_False)
qed

lemma file_open_OK:
  assumes "vfs_res e filename flags md = Inr v" "file_open K e filename flags md s = Inr (OK fd, s')"
  obtains a l ft where "kmalloc_res e = Some a" "lock_res e = Some l" "valid_accmode K flags"
    "files s = Some ft" "lowest_free K ft fd"
    "s' = (allocated s v a l (fresh_openfile K flags v l))\<lparr>files := Some (ft(fd \<mapsto> a))\<rparr>"
proof (cases "kmalloc_res e")
  case None
  with file_open_kmalloc_fails[OF assms(1) None] assms(2) show ?thesis by simp
next
  case (Some a)
  show ?thesis
  proof (cases "lock_res e")
    case None
    with assms Some show ?thesis
      by (simp add: file_open_def vfs_open_def vfs_close_def kfree_def Let_def)
  next
    case l: (Some l)
    let ?s2 = "allocated s v a l (fresh_openfile K flags v l)"
    from assms(2) have va: "valid_accmode K flags"
      by (simp add: file_open_unfold[OF assms(1) Some l] split: if_splits)
    from assms(2) va have pl: "filetable_placefile K a ?s2 = Inr (OK fd, s')"
      by (simp add: file_open_unfold[OF assms(1) Some l] split: sum.splits prod.splits ret.splits)
    from filetable_placefile_OK[OF pl]
    obtain ft where ft: "files ?s2 = Some ft" "lowest_free K ft fd"
      "s' = ?s2\<lparr>files := Some (ft(fd \<mapsto> a))\<rparr>" by blast
    from ft(1) have "files s = Some ft" by (simp only: files_allocated)
    with that[OF Some l va] ft(2,3) show ?thesis by blast
  qed
qed

lemma file_open_vfs_fails:
  assumes "vfs_res e filename flags md = Inl r"
  shows "file_open K e filename flags md s = Inr (Fail r, s)"
  using assms by (simp add: file_open_def vfs_open_def)

text \<open>
  C7. Once \<open>vfs_open\<close> has succeeded, every failure of \<open>file_open\<close> gives the resources
  back before it returns: when \<open>kmalloc\<close> fails (ENOMEM), when \<open>lock_create\<close> fails (ENOMEM)
  and when the table is full (EMFILE) the state returned is the state before the call, so the
  vnode reference, the openfile and the lock are all released; and any failure at all returns
  the state before the call. On success the descriptor refers to the new openfile, whose
  offset is 0, whose mode is \<open>flags AND O_ACCMODE\<close> and whose refcount is 1; and the call does
  succeed, on the lowest free descriptor, when \<open>kmalloc\<close> and \<open>lock_create\<close> succeed, the
  access bits are valid and the table has an empty slot.
\<close>

theorem file_open_no_leak:
  assumes "vfs_res e filename flags md = Inr v" and "env_fresh e s"
  shows "(kmalloc_res e = None \<longrightarrow>
            file_open K e filename flags md s = Inr (Fail ENOMEM, s))
       \<and> (kmalloc_res e \<noteq> None \<and> lock_res e = None \<longrightarrow>
            file_open K e filename flags md s = Inr (Fail ENOMEM, s))
       \<and> (kmalloc_res e \<noteq> None \<and> lock_res e \<noteq> None \<and> valid_accmode K flags \<and> table_full K s \<longrightarrow>
            file_open K e filename flags md s = Inr (Fail EMFILE, s))
       \<and> (\<forall>r s'. file_open K e filename flags md s = Inr (Fail r, s') \<longrightarrow> s' = s)
       \<and> (\<forall>fd s'. file_open K e filename flags md s = Inr (OK fd, s') \<longrightarrow>
            (\<exists>a f. kmalloc_res e = Some a \<and> filetable_findfile K fd s' = Inr (OK a) \<and>
                   heap s' a = Some f \<and> vn f = v \<and> offset f = 0 \<and>
                   mode f = flags AND O_ACCMODE K \<and> refs f = 1))
       \<and> (\<forall>a l ft m. kmalloc_res e = Some a \<and> lock_res e = Some l \<and> valid_accmode K flags \<and>
                    files s = Some ft \<and> lowest_free K ft m \<longrightarrow>
            file_open K e filename flags md s =
              Inr (OK m, (allocated s v a l (fresh_openfile K flags v l))
                           \<lparr>files := Some (ft(m \<mapsto> a))\<rparr>))"
proof (intro conjI impI allI)
  assume "kmalloc_res e = None"
  then show "file_open K e filename flags md s = Inr (Fail ENOMEM, s)"
    by (rule file_open_kmalloc_fails[OF assms(1)])
next
  assume "kmalloc_res e \<noteq> None \<and> lock_res e = None"
  then obtain a where a: "kmalloc_res e = Some a" and l: "lock_res e = None" by blast
  from assms(2) a have "heap s a = None" by (simp add: env_fresh_def)
  from file_open_lock_fails[OF assms(1) a this l]
  show "file_open K e filename flags md s = Inr (Fail ENOMEM, s)" .
next
  assume h: "kmalloc_res e \<noteq> None \<and> lock_res e \<noteq> None \<and> valid_accmode K flags \<and> table_full K s"
  then obtain a l where a: "kmalloc_res e = Some a" and l: "lock_res e = Some l" by blast
  from assms(2) a l have "heap s a = None" "l \<notin> locks s" by (simp_all add: env_fresh_def)
  from file_open_table_full[OF assms(1) a this(1) l this(2)] h
  show "file_open K e filename flags md s = Inr (Fail EMFILE, s)" by blast
next
  fix r s' assume "file_open K e filename flags md s = Inr (Fail r, s')"
  from file_open_Fail_state[OF assms this] show "s' = s" .
next
  fix fd s' assume "file_open K e filename flags md s = Inr (OK fd, s')"
  from file_open_OK[OF assms(1) this]
  obtain a l ft where a: "kmalloc_res e = Some a" and ft: "lowest_free K ft fd"
    and s': "s' = (allocated s v a l (fresh_openfile K flags v l))\<lparr>files := Some (ft(fd \<mapsto> a))\<rparr>"
    by blast
  from ft have "0 \<le> fd" "fd < OPEN_MAX K" by (simp_all add: lowest_free_def)
  then have "filetable_findfile K fd s' = Inr (OK a)"
    by (simp add: s' filetable_findfile_def)
  moreover have "heap s' a = Some (fresh_openfile K flags v l)"
    by (simp add: s' allocated_def)
  ultimately show "\<exists>a f. kmalloc_res e = Some a \<and> filetable_findfile K fd s' = Inr (OK a) \<and>
                   heap s' a = Some f \<and> vn f = v \<and> offset f = 0 \<and>
                   mode f = flags AND O_ACCMODE K \<and> refs f = 1"
    using a by (simp add: fresh_openfile_def)
next
  fix a l ft m
  assume "kmalloc_res e = Some a \<and> lock_res e = Some l \<and> valid_accmode K flags \<and>
          files s = Some ft \<and> lowest_free K ft m"
  then show "file_open K e filename flags md s =
              Inr (OK m, (allocated s v a l (fresh_openfile K flags v l))
                           \<lparr>files := Some (ft(m \<mapsto> a))\<rparr>)"
    using file_open_succeeds[OF assms(1), of a l K s ft m] by blast
qed

lemma K0_simps:
  "OPEN_MAX K0 = 4" "O_ACCMODE K0 = 3" "O_RDONLY K0 = 0" "O_WRONLY K0 = 1" "O_RDWR K0 = 2"
  by (simp_all add: K0_def)

theorem file_open_no_leak_witness:
  "vfs_res e0 ''con:'' 1 0 = Inr 32 \<and> env_fresh e0 sFull \<and> env_fresh e0 sA \<and>
   file_open K0 e0 ''con:'' 1 0 sFull = Inr (Fail EMFILE, sFull) \<and>
   file_open K0 (e0\<lparr>kmalloc_res := None\<rparr>) ''con:'' 1 0 sA = Inr (Fail ENOMEM, sA) \<and>
   file_open K0 (e0\<lparr>lock_res := None\<rparr>) ''con:'' 1 0 sA = Inr (Fail ENOMEM, sA) \<and>
   file_open K0 e0 ''con:'' 1 0 sA = Inr (OK 1, sA1) \<and>
   filetable_findfile K0 1 sA1 = Inr (OK 12) \<and>
   offset (the (heap sA1 12)) = 0 \<and> mode (the (heap sA1 12)) = 1 \<and> refs (the (heap sA1 12)) = 1"
proof -
  have v: "vfs_res e0 ''con:'' 1 0 = Inr 32" by (simp add: e0_def)
  have fF: "env_fresh e0 sFull" by (simp add: env_fresh_def e0_def sFull_def)
  have fA: "env_fresh e0 sA" by (simp add: env_fresh_def e0_def sA_def)
  have va: "valid_accmode K0 1" by (simp add: valid_accmode_def K0_simps)
  have full: "table_full K0 sFull"
    by (auto simp: table_full_def sFull_def ftFull_def K0_simps)
  have r1: "file_open K0 e0 ''con:'' 1 0 sFull = Inr (Fail EMFILE, sFull)"
    using file_open_no_leak[OF v fF, of K0] va full by (simp add: e0_def)
  have v2: "vfs_res (e0\<lparr>kmalloc_res := None\<rparr>) ''con:'' 1 0 = Inr 32" by (simp add: e0_def)
  have f2: "env_fresh (e0\<lparr>kmalloc_res := None\<rparr>) sA"
    by (simp add: env_fresh_def e0_def sA_def)
  have r2: "file_open K0 (e0\<lparr>kmalloc_res := None\<rparr>) ''con:'' 1 0 sA = Inr (Fail ENOMEM, sA)"
    using file_open_no_leak[OF v2 f2, of K0] by simp
  have v3: "vfs_res (e0\<lparr>lock_res := None\<rparr>) ''con:'' 1 0 = Inr 32" by (simp add: e0_def)
  have f3: "env_fresh (e0\<lparr>lock_res := None\<rparr>) sA"
    by (simp add: env_fresh_def e0_def sA_def)
  have r3: "file_open K0 (e0\<lparr>lock_res := None\<rparr>) ''con:'' 1 0 sA = Inr (Fail ENOMEM, sA)"
    using file_open_no_leak[OF v3 f3, of K0] by (simp add: e0_def)
  have lf: "lowest_free K0 ftA 1"
    unfolding lowest_free_def by (auto simp: K0_simps ftA_def)
  have r4: "file_open K0 e0 ''con:'' 1 0 sA = Inr (OK 1, sA1)"
    unfolding sA1_def
    by (rule file_open_succeeds[OF v _ _ va _ lf]) (simp_all add: e0_def sA_def)
  from file_open_no_leak[OF v fA, of K0] r4
  obtain a f where af: "kmalloc_res e0 = Some a" "filetable_findfile K0 1 sA1 = Inr (OK a)"
    "heap sA1 a = Some f" "offset f = 0" "mode f = 1 AND O_ACCMODE K0" "refs f = 1"
    by blast
  from af(1) have a: "a = 12" by (simp add: e0_def)
  from af(5) have "mode f = 1" by (simp add: K0_simps)
  with af a have r5: "filetable_findfile K0 1 sA1 = Inr (OK 12)"
    "offset (the (heap sA1 12)) = 0" "mode (the (heap sA1 12)) = 1" "refs (the (heap sA1 12)) = 1"
    by simp_all
  from v fF fA r1 r2 r3 r4 r5 show ?thesis by blast
qed

subsection \<open>file_doclose: the refcount invariant\<close>

lemma file_doclose_last:
  assumes "heap s file = Some f" "refs f = 1"
  shows "file_doclose st file s = Inr (OK (), destroy_handle file f s)"
  using assms
  by (simp add: file_doclose_def destroy_handle_def vfs_close_def lock_destroy_def kfree_def)

lemma file_doclose_shared:
  assumes "heap s file = Some f" "1 < refs f"
  shows "file_doclose st file s = Inr (OK (), drop_ref file f s)"
  using assms by (simp add: file_doclose_def drop_ref_def)

lemma file_doclose_panic:
  assumes "heap s file = Some f" "refs f < 1"
  shows "file_doclose st file s = Inl KASSERT_failed"
  using assms by (simp add: file_doclose_def)

lemma file_doclose_dangling:
  assumes "heap s file = None"
  shows "file_doclose st file s = Inl Bad_pointer"
  using assms by (simp add: file_doclose_def)

lemma file_doclose_returns_OK:
  assumes "file_doclose st file s = Inr (r, s')"
  shows "r = OK ()"
  using assms by (simp add: file_doclose_def split: option.splits if_splits)



lemma heap_destroy_handle: "heap (destroy_handle file f s) file = None"
  by (simp add: destroy_handle_def)

lemma heap_drop_ref: "heap (drop_ref file f s) file = Some (f\<lparr>refs := refs f - 1\<rparr>)"
  by (simp add: drop_ref_def)

lemma files_destroy_handle: "files (destroy_handle file f s) = files s"
  by (simp add: destroy_handle_def)

lemma files_drop_ref: "files (drop_ref file f s) = files s"
  by (simp add: drop_ref_def)

lemma refs_ok_sA: "refs_ok sA"
  by (simp add: refs_ok_def sA_def h10_def h11_def)

lemma heap_sA: "heap sA 10 = Some h10" "heap sA 11 = Some h11"
  by (simp_all add: sA_def)

subsection \<open>file_doclose and the status of the VFS close; file_close\<close>

lemma file_doclose_files:
  assumes "file_doclose st file s = Inr (r, s')"
  shows "files s' = files s"
  using assms
  by (auto simp: file_doclose_def vfs_close_def lock_destroy_def kfree_def
      split: option.splits if_splits)

lemma file_doclose_live:
  assumes "heap s file = Some f" "1 \<le> refs f"
  shows "file_doclose st file s =
         Inr (OK (), if refs f = 1 then destroy_handle file f s else drop_ref file f s)"
proof (cases "refs f = 1")
  case True
  with file_doclose_last[OF assms(1) True] show ?thesis by simp
next
  case False
  with assms(2) have "1 < refs f" by simp
  with file_doclose_shared[OF assms(1) this] False show ?thesis by simp
qed

text \<open>
  C2, as the code has it. On an existing openfile with a refcount of at least 1,
  \<open>file_doclose\<close> returns 0 whatever status \<open>st\<close> the VFS reports for its close: on the last
  release the openfile is destroyed and the status is dropped, on any other release the
  refcount goes down by one.
\<close>

theorem file_doclose_returns_success:
  assumes "heap s file = Some f" and "1 \<le> refs f"
  shows "file_doclose st file s =
         Inr (OK (), if refs f = 1 then destroy_handle file f s else drop_ref file f s)"
  using assms by (rule file_doclose_live)

theorem file_doclose_returns_success_witness:
  "heap sA 10 = Some h10 \<and> 1 \<le> refs h10 \<and>
   file_doclose (Fail (EVFS 5)) 10 sA = Inr (OK (), destroy_handle 10 h10 sA) \<and>
   heap sA 11 = Some h11 \<and> 1 \<le> refs h11 \<and>
   file_doclose (Fail (EVFS 5)) 11 sA = Inr (OK (), drop_ref 11 h11 sA)"
proof -
  have r: "1 \<le> refs h10" "1 \<le> refs h11" by (simp_all add: h10_def h11_def)
  from file_doclose_returns_success[OF heap_sA(1) r(1), of "Fail (EVFS 5)"]
  have a: "file_doclose (Fail (EVFS 5)) 10 sA = Inr (OK (), destroy_handle 10 h10 sA)"
    by (simp add: h10_def)
  from file_doclose_returns_success[OF heap_sA(2) r(2), of "Fail (EVFS 5)"]
  have b: "file_doclose (Fail (EVFS 5)) 11 sA = Inr (OK (), drop_ref 11 h11 sA)"
    by (simp add: h11_def)
  from heap_sA r a b show ?thesis by blast
qed

text \<open>
  The claim C2 as stated fails: openfile 10 of \<open>sA\<close> has refcount 1, the VFS reports the
  status \<open>Fail (EVFS 5)\<close> for the close, and \<open>file_doclose\<close> returns 0.
\<close>

theorem file_doclose_vfs_status_counterexample:
  "heap sA 10 = Some h10 \<and> refs h10 = 1 \<and>
   fst (vfs_close (Fail (EVFS 5)) (vn h10) sA) = Fail (EVFS 5) \<and>
   file_doclose (Fail (EVFS 5)) 10 sA = Inr (OK (), destroy_handle 10 h10 sA) \<and>
   OK () \<noteq> (Fail (EVFS 5) :: unit ret)"
proof -
  have r: "refs h10 = 1" by (simp add: h10_def)
  have "file_doclose (Fail (EVFS 5)) 10 sA = Inr (OK (), destroy_handle 10 h10 sA)"
    by (rule file_doclose_last[OF heap_sA(1) r])
  with heap_sA(1) r show ?thesis by (simp add: vfs_close_def)
qed

lemma file_close_out_of_range:
  assumes "fd < 0 \<or> OPEN_MAX K \<le> fd"
  shows "file_close K st fd s = Inr (Fail EBADF, s)"
  using assms by (auto simp: file_close_def filetable_findfile_def)

lemma file_close_empty_slot:
  assumes "files s = Some ft" "ft fd = None"
  shows "file_close K st fd s = Inr (Fail EBADF, s)"
  using assms by (simp add: file_close_def filetable_findfile_def)

lemma filetable_findfile_slot:
  assumes "0 \<le> fd" "fd < OPEN_MAX K" "files s = Some ft" "ft fd = Some file"
  shows "filetable_findfile K fd s = Inr (OK file)"
  using assms by (simp add: filetable_findfile_def)


lemma file_close_last:
  assumes "0 \<le> fd" "fd < OPEN_MAX K" "files s = Some ft" "ft fd = Some file"
    "heap s file = Some f" "refs f = 1"
  shows "file_close K st fd s =
         Inr (OK (), (destroy_handle file f s)\<lparr>files := Some (ft(fd := None))\<rparr>)"
  by (simp add: file_close_def filetable_findfile_slot[OF assms(1-4)]
      file_doclose_last[OF assms(5,6)] files_destroy_handle assms(3))

lemma file_close_shared:
  assumes "0 \<le> fd" "fd < OPEN_MAX K" "files s = Some ft" "ft fd = Some file"
    "heap s file = Some f" "1 < refs f"
  shows "file_close K st fd s =
         Inr (OK (), (drop_ref file f s)\<lparr>files := Some (ft(fd := None))\<rparr>)"
  by (simp add: file_close_def filetable_findfile_slot[OF assms(1-4)]
      file_doclose_shared[OF assms(5,6)] files_drop_ref assms(3))

lemma file_close_Fail:
  assumes "file_close K st fd s = Inr (Fail r, s')"
  shows "r = EBADF \<and> s' = s"
proof (cases "filetable_findfile K fd s")
  case (Inl a)
  with assms show ?thesis by (simp add: file_close_def)
next
  case (Inr c)
  show ?thesis
  proof (cases c)
    case (Fail r')
    with Inr have "r' = EBADF"
      by (auto simp: filetable_findfile_def split: if_splits option.splits)
    with assms Inr Fail show ?thesis by (simp add: file_close_def)
  next
    case (OK fl)
    show ?thesis
    proof (cases "file_doclose st fl s")
      case (Inl a)
      with assms Inr OK show ?thesis by (simp add: file_close_def)
    next
      case Inr2: (Inr p)
      obtain c' s1 where p: "p = (c', s1)" by (cases p)
      with Inr2 have "c' = OK ()" by (simp add: file_doclose_returns_OK)
      with assms Inr OK Inr2 p show ?thesis
        by (simp add: file_close_def split: option.splits)
    qed
  qed
qed

lemma file_doclose_any_status: "file_doclose st file s = file_doclose st' file s"
  by (simp add: file_doclose_def vfs_close_def split: option.splits)

lemma file_close_any_status: "file_close K st fd s = file_close K st' fd s"
  unfolding file_close_def by (simp only: file_doclose_any_status[of st _ _ st'])

lemma file_close_Fail_slot:
  assumes "file_close K st fd s = Inr (Fail r, s')" "files s = Some ft"
  shows "fd < 0 \<or> OPEN_MAX K \<le> fd \<or> ft fd = None"
proof (rule ccontr)
  assume "\<not> (fd < 0 \<or> OPEN_MAX K \<le> fd \<or> ft fd = None)"
  then obtain fl where rng: "0 \<le> fd" "fd < OPEN_MAX K" and fl: "ft fd = Some fl" by auto
  have ff: "filetable_findfile K fd s = Inr (OK fl)"
    by (rule filetable_findfile_slot[OF rng assms(2) fl])
  show False
  proof (cases "file_doclose st fl s")
    case (Inl x)
    with assms(1) show False by (simp add: file_close_def ff)
  next
    case (Inr p)
    obtain c' s1 where p: "p = (c', s1)" by (cases p)
    with Inr have "c' = OK ()" by (simp add: file_doclose_returns_OK)
    with assms(1) Inr p show False
      by (simp add: file_close_def ff split: option.splits)
  qed
qed

lemma file_close_occupied_not_Fail:
  assumes "0 \<le> fd" "fd < OPEN_MAX K" "files s = Some ft" "ft fd = Some file"
  shows "file_close K st fd s \<noteq> Inr (Fail r, s')"
proof
  assume a: "file_close K st fd s = Inr (Fail r, s')"
  show False
  proof (cases "file_doclose st file s")
    case (Inl x)
    with a show False by (simp add: file_close_def filetable_findfile_slot[OF assms])
  next
    case (Inr p)
    obtain c' s1 where p: "p = (c', s1)" by (cases p)
    with Inr have "c' = OK ()" by (simp add: file_doclose_returns_OK)
    with a Inr p show False
      by (simp add: file_close_def filetable_findfile_slot[OF assms] split: option.splits)
  qed
qed

subsection \<open>file_close\<close>

text \<open>
  C5, as the code has it. With a table in place, \<open>file_close\<close> returns EBADF and changes
  nothing when the descriptor is outside [0, OPEN_MAX) or its slot is empty. On an occupied
  slot whose openfile has refcount 1 it destroys the openfile and empties that slot; when the
  refcount is greater than 1 it takes one reference off, the openfile stays, and that slot is
  emptied. In both cases no other slot changes. The status \<open>st\<close> that the VFS reports for its
  close has no influence on what \<open>file_close\<close> returns or does; \<open>file_close\<close> returns no
  error other than EBADF, and returns it only for a descriptor that is out of range or whose
  slot is empty, with the state as before the call. No slot is left occupied for a retry
  after a release that failed.
\<close>

theorem file_close_slot:
  assumes "files s = Some ft"
  shows "(fd < 0 \<or> OPEN_MAX K \<le> fd \<or> ft fd = None \<longrightarrow>
            file_close K st fd s = Inr (Fail EBADF, s))
       \<and> (\<forall>file f. 0 \<le> fd \<and> fd < OPEN_MAX K \<and> ft fd = Some file \<and> heap s file = Some f \<and>
                   refs f = 1 \<longrightarrow>
            file_close K st fd s =
              Inr (OK (), (destroy_handle file f s)\<lparr>files := Some (ft(fd := None))\<rparr>))
       \<and> (\<forall>file f. 0 \<le> fd \<and> fd < OPEN_MAX K \<and> ft fd = Some file \<and> heap s file = Some f \<and>
                   1 < refs f \<longrightarrow>
            file_close K st fd s =
              Inr (OK (), (drop_ref file f s)\<lparr>files := Some (ft(fd := None))\<rparr>) \<and>
            heap (drop_ref file f s) file = Some (f\<lparr>refs := refs f - 1\<rparr>))
       \<and> (\<forall>st'. file_close K st' fd s = file_close K st fd s)
       \<and> (\<forall>r s'. file_close K st fd s = Inr (Fail r, s') \<longrightarrow>
            r = EBADF \<and> s' = s \<and> (fd < 0 \<or> OPEN_MAX K \<le> fd \<or> ft fd = None))"
proof (intro conjI impI allI)
  assume "fd < 0 \<or> OPEN_MAX K \<le> fd \<or> ft fd = None"
  then show "file_close K st fd s = Inr (Fail EBADF, s)"
    using file_close_out_of_range[of fd K st s] file_close_empty_slot[OF assms, of fd K st]
    by blast
next
  fix st' show "file_close K st' fd s = file_close K st fd s" by (rule file_close_any_status)
next
  fix fl f
  assume "0 \<le> fd \<and> fd < OPEN_MAX K \<and> ft fd = Some fl \<and> heap s fl = Some f \<and> refs f = 1"
  then show "file_close K st fd s =
              Inr (OK (), (destroy_handle fl f s)\<lparr>files := Some (ft(fd := None))\<rparr>)"
    using file_close_last[OF _ _ assms, of fd K fl f st] by blast
next
  fix fl f
  assume "0 \<le> fd \<and> fd < OPEN_MAX K \<and> ft fd = Some fl \<and> heap s fl = Some f \<and> 1 < refs f"
  then show "file_close K st fd s =
              Inr (OK (), (drop_ref fl f s)\<lparr>files := Some (ft(fd := None))\<rparr>)"
    using file_close_shared[OF _ _ assms, of fd K fl f st] by blast
next
  fix fl f
  show "heap (drop_ref fl f s) fl = Some (f\<lparr>refs := refs f - 1\<rparr>)" by (rule heap_drop_ref)
next
  fix r s' assume a: "file_close K st fd s = Inr (Fail r, s')"
  then show "r = EBADF" using file_close_Fail by blast
  from a show "s' = s" using file_close_Fail by blast
  from a assms show "fd < 0 \<or> OPEN_MAX K \<le> fd \<or> ft fd = None" by (rule file_close_Fail_slot)
qed

lemma files_sA: "files sA = Some ftA"
  by (simp add: sA_def)

theorem file_close_slot_witness:
  "files sA = Some ftA \<and>
   file_close K0 (OK ()) 1 sA = Inr (Fail EBADF, sA) \<and>
   file_close K0 (OK ()) 4 sA = Inr (Fail EBADF, sA) \<and>
   file_close K0 (OK ()) (- 1) sA = Inr (Fail EBADF, sA) \<and>
   file_close K0 (OK ()) 0 sA =
     Inr (OK (), (destroy_handle 10 h10 sA)\<lparr>files := Some (ftA(0 := None))\<rparr>) \<and>
   file_close K0 (OK ()) 2 sA =
     Inr (OK (), (drop_ref 11 h11 sA)\<lparr>files := Some (ftA(2 := None))\<rparr>) \<and>
   heap (drop_ref 11 h11 sA) 11 = Some (h11\<lparr>refs := 1\<rparr>) \<and>
   file_close K0 (Fail (EVFS 5)) 0 sA = file_close K0 (OK ()) 0 sA"
proof -
  have a: "file_close K0 (OK ()) 1 sA = Inr (Fail EBADF, sA)"
    using file_close_slot[OF files_sA, of 1 K0 "OK ()"] by (simp add: ftA_def)
  have b: "file_close K0 (OK ()) 4 sA = Inr (Fail EBADF, sA)"
    using file_close_slot[OF files_sA, of 4 K0 "OK ()"] by (simp add: K0_simps)
  have c: "file_close K0 (OK ()) (- 1) sA = Inr (Fail EBADF, sA)"
    using file_close_slot[OF files_sA, of "- 1" K0 "OK ()"] by simp
  have d: "file_close K0 (OK ()) 0 sA =
     Inr (OK (), (destroy_handle 10 h10 sA)\<lparr>files := Some (ftA(0 := None))\<rparr>)"
    using file_close_slot[OF files_sA, of 0 K0 "OK ()"] heap_sA(1)
    by (simp add: K0_simps ftA_def h10_def)
  have e: "file_close K0 (OK ()) 2 sA =
     Inr (OK (), (drop_ref 11 h11 sA)\<lparr>files := Some (ftA(2 := None))\<rparr>)"
    "heap (drop_ref 11 h11 sA) 11 = Some (h11\<lparr>refs := 1\<rparr>)"
    using file_close_slot[OF files_sA, of 2 K0 "OK ()"] heap_sA(2)
    by (simp_all add: K0_simps ftA_def h11_def)
  have f: "file_close K0 (Fail (EVFS 5)) 0 sA = file_close K0 (OK ()) 0 sA"
    using file_close_slot[OF files_sA, of 0 K0 "OK ()"] by blast
  from files_sA a b c d e f show ?thesis by blast
qed

text \<open>
  The claim C5 as stated fails where it says that a release failure leaves the slot
  occupied: descriptor 0 of \<open>sA\<close> refers to openfile 10, whose refcount is 1; the VFS reports
  the status \<open>Fail (EVFS 5)\<close> for the close, and \<open>file_close\<close> returns 0, with the openfile
  destroyed and slot 0 empty, so that a second close of descriptor 0 finds nothing to retry.
\<close>

theorem file_close_retry_counterexample:
  "filetable_findfile K0 0 sA = Inr (OK 10) \<and>
   fst (vfs_close (Fail (EVFS 5)) (vn h10) sA) = Fail (EVFS 5) \<and>
   file_close K0 (Fail (EVFS 5)) 0 sA =
     Inr (OK (), (destroy_handle 10 h10 sA)\<lparr>files := Some (ftA(0 := None))\<rparr>) \<and>
   filetable_findfile K0 0 ((destroy_handle 10 h10 sA)\<lparr>files := Some (ftA(0 := None))\<rparr>) =
     Inr (Fail EBADF) \<and>
   file_close K0 (OK ()) 0 ((destroy_handle 10 h10 sA)\<lparr>files := Some (ftA(0 := None))\<rparr>) =
     Inr (Fail EBADF, (destroy_handle 10 h10 sA)\<lparr>files := Some (ftA(0 := None))\<rparr>)"
proof -
  let ?s' = "(destroy_handle 10 h10 sA)\<lparr>files := Some (ftA(0 := None))\<rparr>"
  have rng: "(0::int) \<le> 0" "0 < OPEN_MAX K0" by (simp_all add: K0_simps)
  have s0: "ftA 0 = Some 10" by (simp add: ftA_def)
  have r: "refs h10 = 1" by (simp add: h10_def)
  have a: "filetable_findfile K0 0 sA = Inr (OK 10)"
    by (rule filetable_findfile_slot[OF rng files_sA s0])
  have b: "fst (vfs_close (Fail (EVFS 5)) (vn h10) sA) = Fail (EVFS 5)"
    by (simp add: vfs_close_def)
  have c: "file_close K0 (Fail (EVFS 5)) 0 sA = Inr (OK (), ?s')"
    by (rule file_close_last[OF rng files_sA s0 heap_sA(1) r])
  have fs: "files ?s' = Some (ftA(0 := None))" by simp
  have d: "filetable_findfile K0 0 ?s' = Inr (Fail EBADF)"
    by (simp add: filetable_findfile_def K0_simps)
  have e: "file_close K0 (OK ()) 0 ?s' = Inr (Fail EBADF, ?s')"
    by (rule file_close_empty_slot[OF fs]) simp
  from a b c d e show ?thesis by blast
qed

subsection \<open>filetable_dup2file: the cases\<close>

lemma dup2_out_of_range:
  assumes "oldfd < 0 \<or> OPEN_MAX K \<le> oldfd \<or> newfd < 0 \<or> OPEN_MAX K \<le> newfd"
  shows "filetable_dup2file K st oldfd newfd s = Inr (Fail EBADF, s)"
  using assms by (auto simp: filetable_dup2file_def)

lemma dup2_empty_old:
  assumes "files s = Some ft" "ft oldfd = None"
  shows "filetable_dup2file K st oldfd newfd s = Inr (Fail EBADF, s)"
  using assms by (simp add: filetable_dup2file_def)

lemma dup2_unfold:
  assumes "0 \<le> oldfd" "oldfd < OPEN_MAX K" "0 \<le> newfd" "newfd < OPEN_MAX K"
    "files s = Some ft" "ft oldfd = Some file" "oldfd \<noteq> newfd"
  shows "filetable_dup2file K st oldfd newfd s =
     (case (if ft newfd \<noteq> None then file_close K st newfd s else Inr (OK (), s)) of
        Inl a \<Rightarrow> Inl a
      | Inr (Fail r, s1) \<Rightarrow> Inr (Fail r, s1)
      | Inr (OK u, s1) \<Rightarrow>
          (case heap s1 file of
             None \<Rightarrow> Inl Bad_pointer
           | Some f \<Rightarrow>
               (case files s1 of
                  None \<Rightarrow> Inl Bad_pointer
                | Some ft1 \<Rightarrow>
                    Inr (OK (), s1\<lparr>heap := (heap s1)(file \<mapsto> f\<lparr>refs := int_wrap (refs f + 1)\<rparr>),
                                   files := Some (ft1(newfd \<mapsto> file))\<rparr>))))"
  using assms by (simp add: filetable_dup2file_def)

lemma dup2_same:
  assumes "0 \<le> fd" "fd < OPEN_MAX K" "files s = Some ft" "ft fd = Some file"
  shows "filetable_dup2file K st fd fd s = Inr (OK (), s)"
  using assms by (simp add: filetable_dup2file_def)

lemma dup2_free_target:
  assumes "0 \<le> oldfd" "oldfd < OPEN_MAX K" "0 \<le> newfd" "newfd < OPEN_MAX K"
    "files s = Some ft" "ft oldfd = Some file" "oldfd \<noteq> newfd"
    "ft newfd = None" "heap s file = Some f"
  shows "filetable_dup2file K st oldfd newfd s =
         Inr (OK (), (add_ref file f s)\<lparr>files := Some (ft(newfd \<mapsto> file))\<rparr>)"
  by (simp add: dup2_unfold[OF assms(1-7)] assms(5,8,9) add_ref_def)

lemma dup2_last_target:
  assumes "0 \<le> oldfd" "oldfd < OPEN_MAX K" "0 \<le> newfd" "newfd < OPEN_MAX K"
    "files s = Some ft" "ft oldfd = Some file" "oldfd \<noteq> newfd"
    "ft newfd = Some g" "heap s g = Some h" "refs h = 1" "g \<noteq> file" "heap s file = Some f"
  shows "filetable_dup2file K st oldfd newfd s =
         Inr (OK (), (add_ref file f (destroy_handle g h s))\<lparr>files := Some (ft(newfd \<mapsto> file))\<rparr>)"
proof -
  have hf: "heap (destroy_handle g h s) file = Some f"
    using assms(11,12) by (simp add: destroy_handle_def)
  show ?thesis
    by (simp add: dup2_unfold[OF assms(1-7)] assms(8)
        file_close_last[OF assms(3,4,5,8,9,10)] hf add_ref_def)
qed

lemma dup2_shared_target:
  assumes "0 \<le> oldfd" "oldfd < OPEN_MAX K" "0 \<le> newfd" "newfd < OPEN_MAX K"
    "files s = Some ft" "ft oldfd = Some file" "oldfd \<noteq> newfd"
    "ft newfd = Some g" "heap s g = Some h" "1 < refs h" "g \<noteq> file" "heap s file = Some f"
  shows "filetable_dup2file K st oldfd newfd s =
         Inr (OK (), (add_ref file f (drop_ref g h s))\<lparr>files := Some (ft(newfd \<mapsto> file))\<rparr>)"
proof -
  have hf: "heap (drop_ref g h s) file = Some f"
    using assms(11,12) by (simp add: drop_ref_def)
  show ?thesis
    by (simp add: dup2_unfold[OF assms(1-7)] assms(8)
        file_close_shared[OF assms(3,4,5,8,9,10)] hf add_ref_def)
qed

lemma dup2_alias_target_wrap:
  assumes "0 \<le> oldfd" "oldfd < OPEN_MAX K" "0 \<le> newfd" "newfd < OPEN_MAX K"
    "files s = Some ft" "ft oldfd = Some file" "oldfd \<noteq> newfd"
    "ft newfd = Some file" "heap s file = Some f" "1 < refs f"
  shows "filetable_dup2file K st oldfd newfd s =
         Inr (OK (), s\<lparr>heap := (heap s)(file \<mapsto> f\<lparr>refs := int_wrap (refs f)\<rparr>)\<rparr>)"
proof -
  have hf: "heap (drop_ref file f s) file = Some (f\<lparr>refs := refs f - 1\<rparr>)"
    by (rule heap_drop_ref)
  have "ft(newfd \<mapsto> file) = ft" using assms(8) by (simp add: fun_upd_idem)
  then have "(drop_ref file f s)
          \<lparr>heap := (heap (drop_ref file f s))(file \<mapsto> f\<lparr>refs := int_wrap (refs f)\<rparr>),
            files := Some (ft(newfd \<mapsto> file))\<rparr> =
        s\<lparr>heap := (heap s)(file \<mapsto> f\<lparr>refs := int_wrap (refs f)\<rparr>)\<rparr>"
    using assms(5) by (simp add: drop_ref_def)
  then show ?thesis
    by (simp add: dup2_unfold[OF assms(1-7)] assms(8)
        file_close_shared[OF assms(3,4,5,8,9,10)] hf)
qed

lemma dup2_alias_target:
  assumes "0 \<le> oldfd" "oldfd < OPEN_MAX K" "0 \<le> newfd" "newfd < OPEN_MAX K"
    "files s = Some ft" "ft oldfd = Some file" "oldfd \<noteq> newfd"
    "ft newfd = Some file" "heap s file = Some f" "1 < refs f" "refs f \<le> 2147483647"
  shows "filetable_dup2file K st oldfd newfd s = Inr (OK (), s)"
proof -
  from assms(10,11) have "int_wrap (refs f) = refs f" by (intro int_wrap_id) simp_all
  moreover have "(heap s)(file \<mapsto> f) = heap s" using assms(9) by (simp add: fun_upd_idem)
  ultimately show ?thesis by (simp add: dup2_alias_target_wrap[OF assms(1-10)])
qed

lemma dup2_alias_last_target:
  assumes "0 \<le> oldfd" "oldfd < OPEN_MAX K" "0 \<le> newfd" "newfd < OPEN_MAX K"
    "files s = Some ft" "ft oldfd = Some file" "oldfd \<noteq> newfd"
    "ft newfd = Some file" "heap s file = Some f" "refs f = 1"
  shows "filetable_dup2file K st oldfd newfd s = Inl Bad_pointer"
  by (simp add: dup2_unfold[OF assms(1-7)] assms(8)
        file_close_last[OF assms(3,4,5,8,9,10)] heap_destroy_handle)

lemma dup2_target_aborts:
  assumes "0 \<le> oldfd" "oldfd < OPEN_MAX K" "0 \<le> newfd" "newfd < OPEN_MAX K"
    "files s = Some ft" "ft oldfd = Some file" "oldfd \<noteq> newfd"
    "ft newfd = Some g" "heap s g = None \<or> (\<exists>h. heap s g = Some h \<and> refs h < 1)"
  shows "\<exists>x. filetable_dup2file K st oldfd newfd s = Inl x"
proof -
  from assms(9) have "\<exists>x. file_doclose st g s = Inl x"
    using file_doclose_dangling file_doclose_panic by blast
  then obtain x where "file_close K st newfd s = Inl x"
    by (auto simp: file_close_def filetable_findfile_slot[OF assms(3,4,5,8)])
  then show ?thesis
    by (simp add: dup2_unfold[OF assms(1-7)] assms(8))
qed

lemma dup2_Fail:
  assumes "filetable_dup2file K st oldfd newfd s = Inr (Fail r, s')"
  shows "r = EBADF \<and> s' = s"
proof (cases "oldfd < 0 \<or> OPEN_MAX K \<le> oldfd \<or> newfd < 0 \<or> OPEN_MAX K \<le> newfd")
  case True
  from dup2_out_of_range[OF True] assms show ?thesis by simp
next
  case False
  then have rng: "0 \<le> oldfd" "oldfd < OPEN_MAX K" "0 \<le> newfd" "newfd < OPEN_MAX K" by simp_all
  show ?thesis
  proof (cases "files s")
    case None
    with assms False show ?thesis by (simp add: filetable_dup2file_def)
  next
    case (Some ft)
    show ?thesis
    proof (cases "ft oldfd")
      case None
      from dup2_empty_old[OF Some None] assms show ?thesis by simp
    next
      case fl: (Some fl)
      show ?thesis
      proof (cases "oldfd = newfd")
        case True
        with dup2_same[OF rng(1,2) Some fl] assms show ?thesis by simp
      next
        case ne: False
        show ?thesis
        proof (cases "ft newfd")
          case None
          with assms show ?thesis
            by (simp add: dup2_unfold[OF rng Some fl ne] split: option.splits)
        next
          case g: (Some g)
          have nf: "file_close K st newfd s \<noteq> Inr (Fail r, s')"
            by (rule file_close_occupied_not_Fail[OF rng(3,4) Some g])
          from assms g nf show ?thesis
            by (simp add: dup2_unfold[OF rng Some fl ne]
                split: sum.splits prod.splits ret.splits option.splits)
        qed
      qed
    qed
  qed
qed

subsection \<open>filetable_dup2file: what a success means\<close>

lemma dup2_OK_post:
  assumes ok: "filetable_dup2file K st a b s = Inr (OK (), s')" and ne: "a \<noteq> b"
    and ft: "files s = Some ft"
  obtains fl f where "0 \<le> a" "a < OPEN_MAX K" "0 \<le> b" "b < OPEN_MAX K"
    "ft a = Some fl" "heap s fl = Some f"
    "files s' = Some (ft(b \<mapsto> fl))"
    "heap s' fl = Some (f\<lparr>refs := int_wrap (if ft b = Some fl then refs f else refs f + 1)\<rparr>)"
    "\<And>g h. ft b = Some g \<Longrightarrow> heap s g = Some h \<Longrightarrow> refs h = 1 \<Longrightarrow>
       g \<noteq> fl \<and> s' = (add_ref fl f (destroy_handle g h s))\<lparr>files := Some (ft(b \<mapsto> fl))\<rparr>"
proof -
  have rng: "0 \<le> a" "a < OPEN_MAX K" "0 \<le> b" "b < OPEN_MAX K"
    using ok dup2_out_of_range[of a K b st s] by force+
  obtain fl where fl: "ft a = Some fl"
    using ok dup2_empty_old[OF ft, of a K st b] by (cases "ft a") auto
  note unf = dup2_unfold[OF rng ft fl ne]
  show thesis
  proof (cases "ft b")
    case None
    with ok obtain f where f: "heap s fl = Some f"
      by (cases "heap s fl") (auto simp: unf)
    from dup2_free_target[OF rng ft fl ne None f] ok
    have s': "s' = (add_ref fl f s)\<lparr>files := Some (ft(b \<mapsto> fl))\<rparr>" by simp
    show thesis
    proof (rule that[OF rng fl f])
      show "files s' = Some (ft(b \<mapsto> fl))" by (simp add: s')
      show "heap s' fl = Some (f\<lparr>refs := int_wrap (if ft b = Some fl then refs f else refs f + 1)\<rparr>)"
        by (simp add: s' add_ref_def None)
    qed (simp add: None)
  next
    case g: (Some g)
    have live: "\<not> (heap s g = None \<or> (\<exists>h. heap s g = Some h \<and> refs h < 1))"
    proof
      assume "heap s g = None \<or> (\<exists>h. heap s g = Some h \<and> refs h < 1)"
      from dup2_target_aborts[OF rng ft fl ne g this, of st] ok show False by simp
    qed
    then obtain h where h: "heap s g = Some h" and rh: "1 \<le> refs h"
      by (cases "heap s g") (simp, fastforce)
    show thesis
    proof (cases "g = fl")
      case True
      with h have hf: "heap s fl = Some h" by simp
      from g True have gb: "ft b = Some fl" by simp
      have "refs h \<noteq> 1"
        using dup2_alias_last_target[OF rng ft fl ne gb hf] ok by force
      with rh have gt: "1 < refs h" by simp
      from dup2_alias_target_wrap[OF rng ft fl ne gb hf gt] ok
      have s': "s' = s\<lparr>heap := (heap s)(fl \<mapsto> h\<lparr>refs := int_wrap (refs h)\<rparr>)\<rparr>" by simp
      show thesis
      proof (rule that[OF rng fl hf])
        show "files s' = Some (ft(b \<mapsto> fl))" using gb by (simp add: s' ft fun_upd_idem)
        show "heap s' fl = Some (h\<lparr>refs := int_wrap (if ft b = Some fl then refs h else refs h + 1)\<rparr>)"
          by (simp add: s' gb)
        fix g' h' assume "ft b = Some g'" "heap s g' = Some h'" "refs h' = 1"
        with gb hf \<open>refs h \<noteq> 1\<close>
        show "g' \<noteq> fl \<and> s' = (add_ref fl h (destroy_handle g' h' s))\<lparr>files := Some (ft(b \<mapsto> fl))\<rparr>"
          by simp
      qed
    next
      case False
      have nb: "ft b \<noteq> Some fl" using g False by simp
      show thesis
      proof (cases "refs h = 1")
        case True
        have "\<exists>f. heap s fl = Some f"
        proof (cases "heap s fl")
          case None
          then have "heap (destroy_handle g h s) fl = None" by (simp add: destroy_handle_def)
          with ok show ?thesis
            by (simp add: unf g file_close_last[OF rng(3,4) ft g h True])
        qed simp
        then obtain f where f: "heap s fl = Some f" by blast
        from dup2_last_target[OF rng ft fl ne g h True False f] ok
        have s': "s' = (add_ref fl f (destroy_handle g h s))\<lparr>files := Some (ft(b \<mapsto> fl))\<rparr>"
          by simp
        show thesis
        proof (rule that[OF rng fl f])
          show "files s' = Some (ft(b \<mapsto> fl))" by (simp add: s')
          show "heap s' fl = Some (f\<lparr>refs := int_wrap (if ft b = Some fl then refs f else refs f + 1)\<rparr>)"
            using nb by (simp add: s' add_ref_def)
          fix g' h' assume "ft b = Some g'" "heap s g' = Some h'" "refs h' = 1"
          with g h have "g' = g" "h' = h" by simp_all
          with False s'
          show "g' \<noteq> fl \<and> s' = (add_ref fl f (destroy_handle g' h' s))\<lparr>files := Some (ft(b \<mapsto> fl))\<rparr>"
            by simp
        qed
      next
        case nl: False
        with rh have gt: "1 < refs h" by simp
        have "\<exists>f. heap s fl = Some f"
        proof (cases "heap s fl")
          case None
          then have "heap (drop_ref g h s) fl = None" using False by (simp add: drop_ref_def)
          with ok show ?thesis
            by (simp add: unf g file_close_shared[OF rng(3,4) ft g h gt])
        qed simp
        then obtain f where f: "heap s fl = Some f" by blast
        from dup2_shared_target[OF rng ft fl ne g h gt False f] ok
        have s': "s' = (add_ref fl f (drop_ref g h s))\<lparr>files := Some (ft(b \<mapsto> fl))\<rparr>"
          by simp
        show thesis
        proof (rule that[OF rng fl f])
          show "files s' = Some (ft(b \<mapsto> fl))" by (simp add: s')
          show "heap s' fl = Some (f\<lparr>refs := int_wrap (if ft b = Some fl then refs f else refs f + 1)\<rparr>)"
            using nb by (simp add: s' add_ref_def)
          fix g' h' assume "ft b = Some g'" "heap s g' = Some h'" "refs h' = 1"
          with g h nl
          show "g' \<noteq> fl \<and> s' = (add_ref fl f (destroy_handle g' h' s))\<lparr>files := Some (ft(b \<mapsto> fl))\<rparr>"
            by simp
        qed
      qed
    qed
  qed
qed

subsection \<open>filetable_dup2file\<close>

text \<open>
  C4, as the code has it. With a table in place, \<open>filetable_dup2file\<close> returns EBADF and
  changes nothing when \<open>a\<close> or \<open>b\<close> is outside [0, OPEN_MAX) or the slot of \<open>a\<close> is empty.
  When it succeeds for \<open>a \<noteq> b\<close>, both descriptors look up the openfile \<open>a\<close> referred to,
  whose fields other than the refcount are as before; its refcount is one more than before
  the call when the slot of \<open>b\<close> did not hold that same openfile, and as before the call when
  it did (the close of \<open>b\<close> took one reference off first), provided the refcount was below
  2147483647; in general it is the value \<open>refs++\<close> leaves in a 32-bit int, so that from
  2147483647 it becomes -2147483648. An openfile with refcount 1 that
  the slot of \<open>b\<close> held before is destroyed: it no longer exists, its vnode reference is given
  back and its lock is destroyed. The call does succeed when the slot of \<open>b\<close> is empty, and
  when it holds another openfile with refcount 1.
\<close>

theorem filetable_dup2file_alias:
  assumes "files s = Some ft"
  shows "(a < 0 \<or> OPEN_MAX K \<le> a \<or> b < 0 \<or> OPEN_MAX K \<le> b \<or> ft a = None \<longrightarrow>
            filetable_dup2file K st a b s = Inr (Fail EBADF, s))
       \<and> (\<forall>s'. a \<noteq> b \<and> filetable_dup2file K st a b s = Inr (OK (), s') \<longrightarrow>
            (\<exists>file f. ft a = Some file \<and> heap s file = Some f \<and>
               filetable_findfile K a s' = Inr (OK file) \<and>
               filetable_findfile K b s' = Inr (OK file) \<and>
               heap s' file =
                 Some (f\<lparr>refs := int_wrap (if ft b = Some file then refs f else refs f + 1)\<rparr>) \<and>
               (- 2147483648 \<le> refs f \<and> refs f < 2147483647 \<longrightarrow>
                  heap s' file =
                    Some (f\<lparr>refs := if ft b = Some file then refs f else refs f + 1\<rparr>)) \<and>
               (\<forall>g h. ft b = Some g \<and> heap s g = Some h \<and> refs h = 1 \<longrightarrow>
                  heap s' g = None \<and>
                  vnopen s' = (vnopen s)(vn h := vnopen s (vn h) - 1) \<and>
                  locks s' = locks s - {lock h})))
       \<and> (\<forall>file f. 0 \<le> a \<and> a < OPEN_MAX K \<and> 0 \<le> b \<and> b < OPEN_MAX K \<and> a \<noteq> b \<and>
                   ft a = Some file \<and> heap s file = Some f \<and> ft b = None \<longrightarrow>
            filetable_dup2file K st a b s =
              Inr (OK (), (add_ref file f s)\<lparr>files := Some (ft(b \<mapsto> file))\<rparr>))
       \<and> (\<forall>file f g h. 0 \<le> a \<and> a < OPEN_MAX K \<and> 0 \<le> b \<and> b < OPEN_MAX K \<and> a \<noteq> b \<and>
                   ft a = Some file \<and> heap s file = Some f \<and>
                   ft b = Some g \<and> g \<noteq> file \<and> heap s g = Some h \<and> refs h = 1 \<longrightarrow>
            filetable_dup2file K st a b s =
              Inr (OK (), (add_ref file f (destroy_handle g h s))\<lparr>files := Some (ft(b \<mapsto> file))\<rparr>))"
proof (intro conjI impI allI)
  assume "a < 0 \<or> OPEN_MAX K \<le> a \<or> b < 0 \<or> OPEN_MAX K \<le> b \<or> ft a = None"
  then show "filetable_dup2file K st a b s = Inr (Fail EBADF, s)"
    using dup2_out_of_range[of a K b st s] dup2_empty_old[OF assms, of a K st b] by blast
next
  fix s' assume h: "a \<noteq> b \<and> filetable_dup2file K st a b s = Inr (OK (), s')"
  then have ne: "a \<noteq> b" and ok: "filetable_dup2file K st a b s = Inr (OK (), s')" by simp_all
  from dup2_OK_post[OF ok ne assms]
  obtain fl f where rng: "0 \<le> a" "a < OPEN_MAX K" "0 \<le> b" "b < OPEN_MAX K"
    and fl: "ft a = Some fl" and f: "heap s fl = Some f"
    and fs': "files s' = Some (ft(b \<mapsto> fl))"
    and hs': "heap s' fl = Some (f\<lparr>refs := int_wrap (if ft b = Some fl then refs f else refs f + 1)\<rparr>)"
    and last: "\<And>g h. ft b = Some g \<Longrightarrow> heap s g = Some h \<Longrightarrow> refs h = 1 \<Longrightarrow>
       g \<noteq> fl \<and> s' = (add_ref fl f (destroy_handle g h s))\<lparr>files := Some (ft(b \<mapsto> fl))\<rparr>"
    by blast
  have la: "filetable_findfile K a s' = Inr (OK fl)"
    by (rule filetable_findfile_slot[OF rng(1,2) fs']) (simp add: ne fl)
  have lb: "filetable_findfile K b s' = Inr (OK fl)"
    by (rule filetable_findfile_slot[OF rng(3,4) fs']) simp
  have hs'': "- 2147483648 \<le> refs f \<and> refs f < 2147483647 \<longrightarrow>
                  heap s' fl =
                    Some (f\<lparr>refs := if ft b = Some fl then refs f else refs f + 1\<rparr>)"
  proof
    assume "- 2147483648 \<le> refs f \<and> refs f < 2147483647"
    then have "int_wrap (if ft b = Some fl then refs f else refs f + 1) =
               (if ft b = Some fl then refs f else refs f + 1)"
      by (intro int_wrap_id) simp_all
    with hs' show "heap s' fl =
                    Some (f\<lparr>refs := if ft b = Some fl then refs f else refs f + 1\<rparr>)"
      by simp
  qed
  have gone: "\<forall>g h. ft b = Some g \<and> heap s g = Some h \<and> refs h = 1 \<longrightarrow>
                  heap s' g = None \<and>
                  vnopen s' = (vnopen s)(vn h := vnopen s (vn h) - 1) \<and>
                  locks s' = locks s - {lock h}"
  proof (intro allI impI)
    fix g h assume "ft b = Some g \<and> heap s g = Some h \<and> refs h = 1"
    with last[of g h] have "g \<noteq> fl"
      and s': "s' = (add_ref fl f (destroy_handle g h s))\<lparr>files := Some (ft(b \<mapsto> fl))\<rparr>"
      by simp_all
    then show "heap s' g = None \<and>
                  vnopen s' = (vnopen s)(vn h := vnopen s (vn h) - 1) \<and>
                  locks s' = locks s - {lock h}"
      by (simp add: add_ref_def destroy_handle_def)
  qed
  show "\<exists>file f. ft a = Some file \<and> heap s file = Some f \<and>
               filetable_findfile K a s' = Inr (OK file) \<and>
               filetable_findfile K b s' = Inr (OK file) \<and>
               heap s' file =
                 Some (f\<lparr>refs := int_wrap (if ft b = Some file then refs f else refs f + 1)\<rparr>) \<and>
               (- 2147483648 \<le> refs f \<and> refs f < 2147483647 \<longrightarrow>
                  heap s' file =
                    Some (f\<lparr>refs := if ft b = Some file then refs f else refs f + 1\<rparr>)) \<and>
               (\<forall>g h. ft b = Some g \<and> heap s g = Some h \<and> refs h = 1 \<longrightarrow>
                  heap s' g = None \<and>
                  vnopen s' = (vnopen s)(vn h := vnopen s (vn h) - 1) \<and>
                  locks s' = locks s - {lock h})"
    by (intro exI[of _ fl] exI[of _ f] conjI) (rule fl f la lb hs' hs'' gone)+
next
  fix fl f
  assume "0 \<le> a \<and> a < OPEN_MAX K \<and> 0 \<le> b \<and> b < OPEN_MAX K \<and> a \<noteq> b \<and>
          ft a = Some fl \<and> heap s fl = Some f \<and> ft b = None"
  then show "filetable_dup2file K st a b s =
              Inr (OK (), (add_ref fl f s)\<lparr>files := Some (ft(b \<mapsto> fl))\<rparr>)"
    using dup2_free_target[OF _ _ _ _ assms, of a K b fl f st] by blast
next
  fix fl f g h
  assume "0 \<le> a \<and> a < OPEN_MAX K \<and> 0 \<le> b \<and> b < OPEN_MAX K \<and> a \<noteq> b \<and>
          ft a = Some fl \<and> heap s fl = Some f \<and>
          ft b = Some g \<and> g \<noteq> fl \<and> heap s g = Some h \<and> refs h = 1"
  then show "filetable_dup2file K st a b s =
              Inr (OK (), (add_ref fl f (destroy_handle g h s))\<lparr>files := Some (ft(b \<mapsto> fl))\<rparr>)"
    using dup2_last_target[OF _ _ _ _ assms, of a K b fl g h f st] by blast
qed

lemma files_sFull: "files sFull = Some ftFull"
  by (simp add: sFull_def)

lemma heap_sFull: "heap sFull 10 = Some h10" "heap sFull 11 = Some (h11\<lparr>refs := 3\<rparr>)"
  by (simp_all add: sFull_def)

theorem filetable_dup2file_alias_witness:
  "files sA = Some ftA \<and>
   filetable_dup2file K0 (OK ()) 1 0 sA = Inr (Fail EBADF, sA) \<and>
   filetable_dup2file K0 (OK ()) 0 4 sA = Inr (Fail EBADF, sA) \<and>
   filetable_dup2file K0 (OK ()) 0 1 sA =
     Inr (OK (), (add_ref 10 h10 sA)\<lparr>files := Some (ftA(1 \<mapsto> 10))\<rparr>) \<and>
   filetable_dup2file K0 (OK ()) 2 0 sA =
     Inr (OK (), (add_ref 11 h11 (destroy_handle 10 h10 sA))\<lparr>files := Some (ftA(0 \<mapsto> 11))\<rparr>) \<and>
   filetable_findfile K0 2 ((add_ref 11 h11 (destroy_handle 10 h10 sA))\<lparr>files := Some (ftA(0 \<mapsto> 11))\<rparr>)
     = Inr (OK 11) \<and>
   filetable_findfile K0 0 ((add_ref 11 h11 (destroy_handle 10 h10 sA))\<lparr>files := Some (ftA(0 \<mapsto> 11))\<rparr>)
     = Inr (OK 11) \<and>
   heap ((add_ref 11 h11 (destroy_handle 10 h10 sA))\<lparr>files := Some (ftA(0 \<mapsto> 11))\<rparr>) 10 = None"
proof -
  let ?s' = "(add_ref 11 h11 (destroy_handle 10 h10 sA))\<lparr>files := Some (ftA(0 \<mapsto> 11))\<rparr>"
  note inst = filetable_dup2file_alias[OF files_sA, of _ K0 _ "OK ()"]
  have a: "filetable_dup2file K0 (OK ()) 1 0 sA = Inr (Fail EBADF, sA)"
    using inst[of 1 0] by (simp add: ftA_def)
  have b: "filetable_dup2file K0 (OK ()) 0 4 sA = Inr (Fail EBADF, sA)"
    using inst[of 0 4] by (simp add: K0_simps)
  have c: "filetable_dup2file K0 (OK ()) 0 1 sA =
     Inr (OK (), (add_ref 10 h10 sA)\<lparr>files := Some (ftA(1 \<mapsto> 10))\<rparr>)"
    using inst[of 0 1] heap_sA(1) by (simp add: K0_simps ftA_def)
  have d: "filetable_dup2file K0 (OK ()) 2 0 sA = Inr (OK (), ?s')"
    using inst[of 2 0] heap_sA by (simp add: K0_simps ftA_def h10_def)
  have ne: "(2::int) \<noteq> 0" by simp
  from inst[of 2 0] have "\<forall>s'. (2::int) \<noteq> 0 \<and>
        filetable_dup2file K0 (OK ()) 2 0 sA = Inr (OK (), s') \<longrightarrow>
        (\<exists>fl f. ftA 2 = Some fl \<and> heap sA fl = Some f \<and>
           filetable_findfile K0 2 s' = Inr (OK fl) \<and> filetable_findfile K0 0 s' = Inr (OK fl) \<and>
           heap s' fl = Some (f\<lparr>refs := int_wrap (if ftA 0 = Some fl then refs f else refs f + 1)\<rparr>) \<and>
           (- 2147483648 \<le> refs f \<and> refs f < 2147483647 \<longrightarrow>
              heap s' fl = Some (f\<lparr>refs := if ftA 0 = Some fl then refs f else refs f + 1\<rparr>)) \<and>
           (\<forall>g h. ftA 0 = Some g \<and> heap sA g = Some h \<and> refs h = 1 \<longrightarrow>
              heap s' g = None \<and> vnopen s' = (vnopen sA)(vn h := vnopen sA (vn h) - 1) \<and>
              locks s' = locks sA - {lock h}))"
    by (rule conjunct1[OF conjunct2])
  with ne d
  obtain fl f where p: "ftA 2 = Some fl" "heap sA fl = Some f"
    "filetable_findfile K0 2 ?s' = Inr (OK fl)" "filetable_findfile K0 0 ?s' = Inr (OK fl)"
    "\<forall>g h. ftA 0 = Some g \<and> heap sA g = Some h \<and> refs h = 1 \<longrightarrow> heap ?s' g = None"
    by blast
  from p(1) have fl: "fl = 11" by (simp add: ftA_def)
  have "ftA 0 = Some 10 \<and> heap sA 10 = Some h10 \<and> refs h10 = 1"
    by (simp add: ftA_def heap_sA h10_def)
  with p(5) have e: "heap ?s' 10 = None" by blast
  from files_sA a b c d p(3,4)[unfolded fl] e show ?thesis by blast
qed

text \<open>
  The claim C4 as stated fails where it says the refcount is incremented: in \<open>sFull\<close> the
  descriptors 1 and 2 both refer to openfile 11, whose refcount is 3; \<open>filetable_dup2file\<close>
  from 1 to 2 succeeds and returns the state it started from, so the refcount is still 3.
\<close>

theorem filetable_dup2file_refcount_counterexample:
  "filetable_findfile K0 1 sFull = Inr (OK 11) \<and>
   filetable_findfile K0 2 sFull = Inr (OK 11) \<and>
   refs (the (heap sFull 11)) = 3 \<and>
   filetable_dup2file K0 (OK ()) 1 2 sFull = Inr (OK (), sFull)"
proof -
  have rng: "(0::int) \<le> 1" "1 < OPEN_MAX K0" "(0::int) \<le> 2" "2 < OPEN_MAX K0"
    by (simp_all add: K0_simps)
  have s1: "ftFull 1 = Some 11" and s2: "ftFull 2 = Some 11" by (simp_all add: ftFull_def)
  have gt: "1 < refs (h11\<lparr>refs := 3\<rparr>)" and le: "refs (h11\<lparr>refs := 3\<rparr>) \<le> 2147483647"
    by simp_all
  have "filetable_dup2file K0 (OK ()) 1 2 sFull = Inr (OK (), sFull)"
    by (rule dup2_alias_target[OF rng files_sFull s1 _ s2 heap_sFull(2) gt le]) simp
  moreover have "filetable_findfile K0 1 sFull = Inr (OK 11)"
    by (rule filetable_findfile_slot[OF rng(1,2) files_sFull s1])
  moreover have "filetable_findfile K0 2 sFull = Inr (OK 11)"
    by (rule filetable_findfile_slot[OF rng(3,4) files_sFull s2])
  ultimately show ?thesis by (simp add: heap_sFull)
qed

subsection \<open>Release never fails\<close>

text \<open>
  C9. Whatever status \<open>st\<close> the VFS reports for its close, a \<open>file_doclose\<close> that returns
  returns 0, and it does return on an existing openfile with a refcount of at least 1. So
  \<open>file_close\<close> fails with EBADF only, leaving the state as it was; the test that guards
  "leave file open for possible retry" in \<open>file_close\<close> is never true, since the
  \<open>file_doclose\<close> of the openfile that \<open>filetable_findfile\<close> found does not return an error;
  and the test that guards the abort in \<open>filetable_dup2file\<close> is never true, since
  \<open>file_close\<close> on an occupied slot in range does not return an error, so that
  \<open>filetable_dup2file\<close> too fails with EBADF only and leaves the state as it was.
\<close>

theorem file_doclose_never_fails:
  "(\<forall>r s'. file_doclose st file s = Inr (r, s') \<longrightarrow> r = OK ())
   \<and> (\<forall>f. heap s file = Some f \<and> 1 \<le> refs f \<longrightarrow>
          (\<exists>s'. file_doclose st file s = Inr (OK (), s')))
   \<and> (\<forall>r s'. file_close K st fd s = Inr (Fail r, s') \<longrightarrow> r = EBADF \<and> s' = s)
   \<and> (\<forall>fl r s1. filetable_findfile K fd s = Inr (OK fl) \<longrightarrow>
          file_doclose st fl s \<noteq> Inr (Fail r, s1))
   \<and> (\<forall>ft r s1. files s = Some ft \<and> 0 \<le> fd \<and> fd < OPEN_MAX K \<and> ft fd \<noteq> None \<longrightarrow>
          file_close K st fd s \<noteq> Inr (Fail r, s1))
   \<and> (\<forall>oldfd r s'. filetable_dup2file K st oldfd fd s = Inr (Fail r, s') \<longrightarrow>
          r = EBADF \<and> s' = s)"
proof (intro conjI allI impI)
  fix r s' assume "file_doclose st file s = Inr (r, s')"
  then show "r = OK ()" by (rule file_doclose_returns_OK)
next
  fix f assume "heap s file = Some f \<and> 1 \<le> refs f"
  then show "\<exists>s'. file_doclose st file s = Inr (OK (), s')"
    using file_doclose_live[of s "file" f st] by blast
next
  fix r s' assume a: "file_close K st fd s = Inr (Fail r, s')"
  from file_close_Fail[OF a] show "r = EBADF" "s' = s" by simp_all
next
  fix fl r s1 assume "filetable_findfile K fd s = Inr (OK fl)"
  show "file_doclose st fl s \<noteq> Inr (Fail r, s1)"
  proof
    assume "file_doclose st fl s = Inr (Fail r, s1)"
    from file_doclose_returns_OK[OF this] show False by simp
  qed
next
  fix ft r s1
  assume "files s = Some ft \<and> 0 \<le> fd \<and> fd < OPEN_MAX K \<and> ft fd \<noteq> None"
  then obtain g where "0 \<le> fd" "fd < OPEN_MAX K" "files s = Some ft" "ft fd = Some g" by blast
  then show "file_close K st fd s \<noteq> Inr (Fail r, s1)"
    by (rule file_close_occupied_not_Fail)
next
  fix oldfd r s' assume a: "filetable_dup2file K st oldfd fd s = Inr (Fail r, s')"
  from dup2_Fail[OF a] show "r = EBADF" "s' = s" by simp_all
qed

theorem file_doclose_never_fails_witness:
  "heap sA 10 = Some h10 \<and> 1 \<le> refs h10 \<and>
   file_doclose (Fail (EVFS 5)) 10 sA \<noteq> Inr (Fail (EVFS 5), destroy_handle 10 h10 sA) \<and>
   files sA = Some ftA \<and> ftA 0 \<noteq> None \<and>
   file_close K0 (Fail (EVFS 5)) 0 sA \<noteq> Inr (Fail (EVFS 5), sA) \<and>
   filetable_dup2file K0 (Fail (EVFS 5)) 2 0 sA \<noteq> Inr (Fail (EVFS 5), sA)"
proof -
  note inst = file_doclose_never_fails[of "Fail (EVFS 5)" 10 sA K0 0]
  have r: "1 \<le> refs h10" by (simp add: h10_def)
  have a: "file_doclose (Fail (EVFS 5)) 10 sA \<noteq> Inr (Fail (EVFS 5), destroy_handle 10 h10 sA)"
    using inst by fastforce
  have occ: "ftA 0 \<noteq> None" by (simp add: ftA_def)
  have rng: "(0::int) \<le> 0 \<and> 0 < OPEN_MAX K0" by (simp add: K0_simps)
  have b: "file_close K0 (Fail (EVFS 5)) 0 sA \<noteq> Inr (Fail (EVFS 5), sA)"
    using inst files_sA occ rng by blast
  have c: "filetable_dup2file K0 (Fail (EVFS 5)) 2 0 sA \<noteq> Inr (Fail (EVFS 5), sA)"
    using inst by fastforce
  from heap_sA(1) r a files_sA occ b c show ?thesis by blast
qed

subsection \<open>filetable_copy\<close>

lemma slots_from_step:
  assumes "i < OPEN_MAX K"
  shows "slots_from K i ft file = (if ft i = Some file then 1 else 0) + slots_from K (i + 1) ft file"
proof -
  from assms have "[i..OPEN_MAX K - 1] = i # [i + 1..OPEN_MAX K - 1]"
    by (simp add: upto_rec1)
  then show ?thesis by (simp add: slots_from_def)
qed

lemma slots_from_end:
  assumes "\<not> i < OPEN_MAX K"
  shows "slots_from K i ft file = 0"
  using assms by (simp add: slots_from_def)

lemma copy_loop_result:
  assumes "copy_loop K fd ft cp s = Inr (cp', s')"
  shows "(\<forall>i. fd \<le> i \<and> i < OPEN_MAX K \<longrightarrow> cp' i = ft i) \<and>
         (\<forall>i. \<not> (fd \<le> i \<and> i < OPEN_MAX K) \<longrightarrow> cp' i = cp i) \<and>
         (\<forall>a. heap s' a =
                map_option (\<lambda>f. f\<lparr>refs := incr_times (slots_from K fd ft a) (refs f)\<rparr>) (heap s a)) \<and>
         files s' = files s \<and> locks s' = locks s \<and> vnopen s' = vnopen s"
  using assms
proof (induction K fd ft cp s rule: copy_loop.induct)
  case (1 K fd ft cp s)
  show ?case
  proof (cases "fd < OPEN_MAX K")
    case False
    with "1.prems" have e: "cp' = cp" "s' = s" by (subst (asm) copy_loop.simps, simp)+
    have "heap s a = map_option (\<lambda>f. f\<lparr>refs := incr_times (slots_from K fd ft a) (refs f)\<rparr>) (heap s a)" for a
      by (cases "heap s a") (simp_all add: slots_from_end[OF False] incr_times_0)
    with False show ?thesis unfolding e by auto
  next
    case True
    note step = slots_from_step[OF True, of ft]
    show ?thesis
    proof (cases "ft fd")
      case None
      with True "1.prems" have r: "copy_loop K (fd + 1) ft (cp(fd := None)) s = Inr (cp', s')"
        by (subst (asm) copy_loop.simps) simp
      note IH = "1.IH"(1)[OF True None r]
      have a: "\<forall>i. fd \<le> i \<and> i < OPEN_MAX K \<longrightarrow> cp' i = ft i"
      proof (intro allI impI)
        fix i assume i: "fd \<le> i \<and> i < OPEN_MAX K"
        show "cp' i = ft i"
        proof (cases "i = fd")
          case True
          with IH have "cp' i = (cp(fd := None)) i" by simp
          with True None show ?thesis by simp
        next
          case False
          with i IH show ?thesis by simp
        qed
      qed
      have b: "\<forall>i. \<not> (fd \<le> i \<and> i < OPEN_MAX K) \<longrightarrow> cp' i = cp i"
      proof (intro allI impI)
        fix i assume i: "\<not> (fd \<le> i \<and> i < OPEN_MAX K)"
        with True have "i \<noteq> fd" "\<not> (fd + 1 \<le> i \<and> i < OPEN_MAX K)" by auto
        with IH have "cp' i = (cp(fd := None)) i" by blast
        with \<open>i \<noteq> fd\<close> show "cp' i = cp i" by simp
      qed
      have c: "\<forall>a. heap s' a =
                map_option (\<lambda>f. f\<lparr>refs := incr_times (slots_from K fd ft a) (refs f)\<rparr>) (heap s a)"
        using IH by (simp add: step None)
      from a b c IH show ?thesis by blast
    next
      case (Some fl)
      show ?thesis
      proof (cases "heap s fl")
        case None
        with True Some "1.prems" show ?thesis by (subst (asm) copy_loop.simps) simp
      next
        case f: (Some f)
        let ?s1 = "s\<lparr>heap := (heap s)(fl \<mapsto> f\<lparr>refs := int_wrap (refs f + 1)\<rparr>)\<rparr>"
        from True Some f "1.prems"
        have r: "copy_loop K (fd + 1) ft (cp(fd \<mapsto> fl)) ?s1 = Inr (cp', s')"
          by (subst (asm) copy_loop.simps) simp
        note IH = "1.IH"(2)[OF True Some f r]
        have a: "\<forall>i. fd \<le> i \<and> i < OPEN_MAX K \<longrightarrow> cp' i = ft i"
        proof (intro allI impI)
          fix i assume i: "fd \<le> i \<and> i < OPEN_MAX K"
          show "cp' i = ft i"
          proof (cases "i = fd")
            case True
            with IH have "cp' i = (cp(fd \<mapsto> fl)) i" by simp
            with True Some show ?thesis by simp
          next
            case False
            with i IH show ?thesis by simp
          qed
        qed
        have b: "\<forall>i. \<not> (fd \<le> i \<and> i < OPEN_MAX K) \<longrightarrow> cp' i = cp i"
        proof (intro allI impI)
          fix i assume i: "\<not> (fd \<le> i \<and> i < OPEN_MAX K)"
          with True have "i \<noteq> fd" "\<not> (fd + 1 \<le> i \<and> i < OPEN_MAX K)" by auto
          with IH have "cp' i = (cp(fd \<mapsto> fl)) i" by blast
          with \<open>i \<noteq> fd\<close> show "cp' i = cp i" by simp
        qed
        have c: "\<forall>a. heap s' a =
                map_option (\<lambda>f. f\<lparr>refs := incr_times (slots_from K fd ft a) (refs f)\<rparr>) (heap s a)"
        proof
          fix a
          from IH have h: "heap s' a =
              map_option (\<lambda>f. f\<lparr>refs := incr_times (slots_from K (fd + 1) ft a) (refs f)\<rparr>) (heap ?s1 a)"
            by blast
          show "heap s' a = map_option (\<lambda>f. f\<lparr>refs := incr_times (slots_from K fd ft a) (refs f)\<rparr>) (heap s a)"
          proof (cases "a = fl")
            case True
            with h f Some show ?thesis by (simp add: step incr_times_Suc)
          next
            case False
            with h Some show ?thesis by (simp add: step)
          qed
        qed
        from IH have d: "files s' = files s \<and> locks s' = locks s \<and> vnopen s' = vnopen s"
          by simp
        from a b c d show ?thesis by blast
      qed
    qed
  qed
qed

lemma copy_loop_returns:
  assumes "\<forall>i fl. fd \<le> i \<and> i < OPEN_MAX K \<and> ft i = Some fl \<longrightarrow> heap s fl \<noteq> None"
  shows "\<exists>cp' s'. copy_loop K fd ft cp s = Inr (cp', s')"
  using assms
proof (induction K fd ft cp s rule: copy_loop.induct)
  case (1 K fd ft cp s)
  show ?case
  proof (cases "fd < OPEN_MAX K")
    case False
    then show ?thesis by (subst copy_loop.simps) simp
  next
    case True
    show ?thesis
    proof (cases "ft fd")
      case None
      have "\<forall>i fl. fd + 1 \<le> i \<and> i < OPEN_MAX K \<and> ft i = Some fl \<longrightarrow> heap s fl \<noteq> None"
      proof (intro allI impI)
        fix i fl assume "fd + 1 \<le> i \<and> i < OPEN_MAX K \<and> ft i = Some fl"
        then have "fd \<le> i \<and> i < OPEN_MAX K \<and> ft i = Some fl" by simp
        with "1.prems" show "heap s fl \<noteq> None" by blast
      qed
      from "1.IH"(1)[OF True None this]
      obtain cp' s' where "copy_loop K (fd + 1) ft (cp(fd := None)) s = Inr (cp', s')" by blast
      with True None have "copy_loop K fd ft cp s = Inr (cp', s')"
        by (subst copy_loop.simps) simp
      then show ?thesis by blast
    next
      case (Some fl)
      with True have "fd \<le> fd \<and> fd < OPEN_MAX K \<and> ft fd = Some fl" by simp
      with "1.prems" have "heap s fl \<noteq> None" by blast
      then obtain f where f: "heap s fl = Some f" by blast
      let ?s1 = "s\<lparr>heap := (heap s)(fl \<mapsto> f\<lparr>refs := int_wrap (refs f + 1)\<rparr>)\<rparr>"
      have "\<forall>i g. fd + 1 \<le> i \<and> i < OPEN_MAX K \<and> ft i = Some g \<longrightarrow> heap ?s1 g \<noteq> None"
      proof (intro allI impI)
        fix i g assume "fd + 1 \<le> i \<and> i < OPEN_MAX K \<and> ft i = Some g"
        then have "fd \<le> i \<and> i < OPEN_MAX K \<and> ft i = Some g" by simp
        with "1.prems" have "heap s g \<noteq> None" by blast
        then show "heap ?s1 g \<noteq> None" by simp
      qed
      from "1.IH"(2)[OF True Some f this]
      obtain cp' s' where "copy_loop K (fd + 1) ft (cp(fd \<mapsto> fl)) ?s1 = Inr (cp', s')" by blast
      with True Some f have "copy_loop K fd ft cp s = Inr (cp', s')"
        by (subst copy_loop.simps) simp
      then show ?thesis by blast
    qed
  qed
qed

text \<open>
  C3, as the code has it. When the process has no table, \<open>filetable_copy\<close> returns 0 with a
  NULL copy and changes nothing. When it has one, \<open>kmalloc\<close> succeeds and every occupied slot
  refers to an existing openfile, \<open>filetable_copy\<close> returns 0 with a copy that agrees with
  the table at every index in [0, OPEN_MAX), whatever the fresh block contained; every
  openfile keeps its fields except that its refcount has gone through one \<open>refs++\<close> for every
  slot of the table that holds it. That is its value before the call plus the number of those
  slots as long as the sum is at most 2147483647; beyond, the 32-bit int has wrapped around.
  No openfile appears or disappears, and the table of the process, the locks and the vnode
  references are as before.
\<close>

theorem filetable_copy_mirrors:
  "(files s = None \<longrightarrow> filetable_copy K tres s = Inr (OK None, s))
   \<and> (\<forall>ft junk. files s = Some ft \<and> tres = Some junk \<and> table_live K ft s \<longrightarrow>
        (\<exists>cp s'. filetable_copy K tres s = Inr (OK (Some cp), s') \<and>
           (\<forall>fd. 0 \<le> fd \<and> fd < OPEN_MAX K \<longrightarrow> cp fd = ft fd) \<and>
           (\<forall>file f. heap s file = Some f \<longrightarrow>
              heap s' file = Some (f\<lparr>refs := incr_times (slots_from K 0 ft file) (refs f)\<rparr>) \<and>
              (- 2147483648 \<le> refs f \<and> refs f + int (slots_from K 0 ft file) \<le> 2147483647 \<longrightarrow>
                 heap s' file = Some (f\<lparr>refs := refs f + int (slots_from K 0 ft file)\<rparr>))) \<and>
           (\<forall>file. heap s file = None \<longrightarrow> heap s' file = None) \<and>
           files s' = files s \<and> locks s' = locks s \<and> vnopen s' = vnopen s))"
proof (intro conjI impI allI)
  assume "files s = None"
  then show "filetable_copy K tres s = Inr (OK None, s)" by (simp add: filetable_copy_def)
next
  fix ft junk assume h: "files s = Some ft \<and> tres = Some junk \<and> table_live K ft s"
  then have live: "\<forall>i fl. 0 \<le> i \<and> i < OPEN_MAX K \<and> ft i = Some fl \<longrightarrow> heap s fl \<noteq> None"
    unfolding table_live_def by blast
  from copy_loop_returns[OF live, of junk]
  obtain cp s' where r: "copy_loop K 0 ft junk s = Inr (cp, s')" by blast
  from copy_loop_result[OF r]
  have p: "\<forall>i. 0 \<le> i \<and> i < OPEN_MAX K \<longrightarrow> cp i = ft i"
    "\<forall>a. heap s' a =
       map_option (\<lambda>f. f\<lparr>refs := incr_times (slots_from K 0 ft a) (refs f)\<rparr>) (heap s a)"
    "files s' = files s" "locks s' = locks s" "vnopen s' = vnopen s"
    by blast+
  have c: "filetable_copy K tres s = Inr (OK (Some cp), s')"
    using h r by (simp add: filetable_copy_def)
  have q1: "\<forall>fl f. heap s fl = Some f \<longrightarrow>
              heap s' fl = Some (f\<lparr>refs := incr_times (slots_from K 0 ft fl) (refs f)\<rparr>) \<and>
              (- 2147483648 \<le> refs f \<and> refs f + int (slots_from K 0 ft fl) \<le> 2147483647 \<longrightarrow>
                 heap s' fl = Some (f\<lparr>refs := refs f + int (slots_from K 0 ft fl)\<rparr>))"
  proof (intro allI impI conjI)
    fix fl f assume f: "heap s fl = Some f"
    with p(2) show e: "heap s' fl =
        Some (f\<lparr>refs := incr_times (slots_from K 0 ft fl) (refs f)\<rparr>)"
      by simp
    assume "- 2147483648 \<le> refs f \<and> refs f + int (slots_from K 0 ft fl) \<le> 2147483647"
    then have "incr_times (slots_from K 0 ft fl) (refs f) = refs f + int (slots_from K 0 ft fl)"
      by (intro incr_times_no_overflow) simp_all
    with e show "heap s' fl = Some (f\<lparr>refs := refs f + int (slots_from K 0 ft fl)\<rparr>)"
      by simp
  qed
  have q2: "\<forall>fl. heap s fl = None \<longrightarrow> heap s' fl = None"
    using p(2) by simp
  show "\<exists>cp s'. filetable_copy K tres s = Inr (OK (Some cp), s') \<and>
           (\<forall>fd. 0 \<le> fd \<and> fd < OPEN_MAX K \<longrightarrow> cp fd = ft fd) \<and>
           (\<forall>file f. heap s file = Some f \<longrightarrow>
              heap s' file = Some (f\<lparr>refs := incr_times (slots_from K 0 ft file) (refs f)\<rparr>) \<and>
              (- 2147483648 \<le> refs f \<and> refs f + int (slots_from K 0 ft file) \<le> 2147483647 \<longrightarrow>
                 heap s' file = Some (f\<lparr>refs := refs f + int (slots_from K 0 ft file)\<rparr>))) \<and>
           (\<forall>file. heap s file = None \<longrightarrow> heap s' file = None) \<and>
           files s' = files s \<and> locks s' = locks s \<and> vnopen s' = vnopen s"
    by (intro exI[of _ cp] exI[of _ s'] conjI) (rule c p(1) q1 q2 p(3) p(4) p(5))+
qed

lemma table_live_sFull: "table_live K0 ftFull sFull"
  by (auto simp: table_live_def ftFull_def sFull_def split: if_splits)

lemma slots_sFull: "slots_from K0 0 ftFull 10 = 1" "slots_from K0 0 ftFull 11 = 3"
  by (simp_all add: slots_from_def K0_simps ftFull_def upto.simps[of 0])

theorem filetable_copy_mirrors_witness:
  "files sFull = Some ftFull \<and> table_live K0 ftFull sFull \<and>
   (case filetable_copy K0 (Some ftA) sFull of
      Inr (OK (Some cp), s') \<Rightarrow>
        cp 0 = Some 10 \<and> cp 1 = Some 11 \<and> cp 2 = Some 11 \<and> cp 3 = Some 11 \<and>
        refs (the (heap sFull 10)) = 1 \<and> refs (the (heap s' 10)) = 2 \<and>
        refs (the (heap sFull 11)) = 3 \<and> refs (the (heap s' 11)) = 6
    | _ \<Rightarrow> False) \<and>
   filetable_copy K0 None (sFull\<lparr>files := None\<rparr>) = Inr (OK None, sFull\<lparr>files := None\<rparr>)"
proof -
  from filetable_copy_mirrors[of sFull K0 "Some ftA"] files_sFull table_live_sFull
  obtain cp s' where r: "filetable_copy K0 (Some ftA) sFull = Inr (OK (Some cp), s')"
    and cp: "\<forall>fd. 0 \<le> fd \<and> fd < OPEN_MAX K0 \<longrightarrow> cp fd = ftFull fd"
    and hp: "\<forall>fl f. heap sFull fl = Some f \<longrightarrow>
              heap s' fl = Some (f\<lparr>refs := incr_times (slots_from K0 0 ftFull fl) (refs f)\<rparr>) \<and>
              (- 2147483648 \<le> refs f \<and> refs f + int (slots_from K0 0 ftFull fl) \<le> 2147483647 \<longrightarrow>
                 heap s' fl = Some (f\<lparr>refs := refs f + int (slots_from K0 0 ftFull fl)\<rparr>))"
    by blast
  from cp have c: "cp 0 = Some 10" "cp 1 = Some 11" "cp 2 = Some 11" "cp 3 = Some 11"
    by (simp_all add: K0_simps ftFull_def)
  from hp heap_sFull(1)
  have "- 2147483648 \<le> refs h10 \<and> refs h10 + int (slots_from K0 0 ftFull 10) \<le> 2147483647 \<longrightarrow>
        heap s' 10 = Some (h10\<lparr>refs := refs h10 + int (slots_from K0 0 ftFull 10)\<rparr>)"
    by blast
  then have h1: "refs (the (heap s' 10)) = 2" by (simp add: slots_sFull h10_def)
  from hp heap_sFull(2)
  have "- 2147483648 \<le> refs (h11\<lparr>refs := 3\<rparr>) \<and>
        refs (h11\<lparr>refs := 3\<rparr>) + int (slots_from K0 0 ftFull 11) \<le> 2147483647 \<longrightarrow>
        heap s' 11 = Some (h11\<lparr>refs := 3, refs := refs (h11\<lparr>refs := 3\<rparr>) + int (slots_from K0 0 ftFull 11)\<rparr>)"
    by blast
  then have h2: "refs (the (heap s' 11)) = 6" by (simp add: slots_sFull)
  have n: "filetable_copy K0 None (sFull\<lparr>files := None\<rparr>) = Inr (OK None, sFull\<lparr>files := None\<rparr>)"
    using filetable_copy_mirrors[of "sFull\<lparr>files := None\<rparr>" K0 None] by simp
  from files_sFull table_live_sFull r c h1 h2 n show ?thesis
    by (simp add: heap_sFull h10_def)
qed

text \<open>
  The claim C3 as stated fails where it says that the refcount after the copy is its value
  before plus the number of slots copied: the table of \<open>sMax\<close> has the one descriptor 0, on
  openfile 10, whose refcount is 2147483647, the largest value of a 32-bit int. The copy
  succeeds, mirrors the table, and leaves the refcount at -2147483648, not at 2147483648.
\<close>

theorem filetable_copy_refcount_counterexample:
  "files sMax = Some ftMax \<and>
   heap sMax 10 = Some (h10\<lparr>refs := 2147483647\<rparr>) \<and>
   slots_from K0 0 ftMax 10 = 1 \<and>
   filetable_copy K0 (Some ftA) sMax =
     Inr (OK (Some ftMax), sMax\<lparr>heap := [10 \<mapsto> h10\<lparr>refs := - 2147483648\<rparr>]\<rparr>) \<and>
   refs (h10\<lparr>refs := - 2147483648\<rparr>) \<noteq> refs (h10\<lparr>refs := 2147483647\<rparr>) + 1"
proof -
  have a: "files sMax = Some ftMax" "heap sMax 10 = Some (h10\<lparr>refs := 2147483647\<rparr>)"
    by (simp_all add: sMax_def)
  have b: "slots_from K0 0 ftMax 10 = 1"
    by (simp add: slots_from_def K0_simps ftMax_def upto.simps[of 0])
  have cp: "ftA(0 \<mapsto> 10, 1 := None, 2 := None, 3 := None) = ftMax"
    by (auto simp: ftA_def ftMax_def fun_eq_iff)
  have l4: "copy_loop K0 4 ftMax cp s = Inr (cp, s)" for cp s
    by (subst copy_loop.simps) (simp add: K0_simps)
  have l3: "copy_loop K0 3 ftMax cp s = Inr (cp(3 := None), s)" for cp s
    by (subst copy_loop.simps) (simp add: K0_simps ftMax_def l4[unfolded ftMax_def])
  have l2: "copy_loop K0 2 ftMax cp s = Inr (cp(2 := None, 3 := None), s)" for cp s
    by (subst copy_loop.simps) (simp add: K0_simps ftMax_def l3[unfolded ftMax_def])
  have l1: "copy_loop K0 1 ftMax cp s = Inr (cp(1 := None, 2 := None, 3 := None), s)" for cp s
    by (subst copy_loop.simps) (simp add: K0_simps ftMax_def l2[unfolded ftMax_def])
  have l0: "copy_loop K0 0 ftMax ftA sMax =
      Inr (ftA(0 \<mapsto> 10, 1 := None, 2 := None, 3 := None),
           sMax\<lparr>heap := (heap sMax)(10 \<mapsto> h10\<lparr>refs := - 2147483648\<rparr>)\<rparr>)"
    by (subst copy_loop.simps)
      (simp add: K0_simps ftMax_def l1[unfolded ftMax_def] sMax_def int_wrap_def)
  have hp: "(heap sMax)(10 \<mapsto> h10\<lparr>refs := - 2147483648\<rparr>) = [10 \<mapsto> h10\<lparr>refs := - 2147483648\<rparr>]"
    by (simp add: sMax_def)
  have c: "filetable_copy K0 (Some ftA) sMax =
     Inr (OK (Some ftMax), sMax\<lparr>heap := [10 \<mapsto> h10\<lparr>refs := - 2147483648\<rparr>]\<rparr>)"
    by (simp add: filetable_copy_def a(1) l0 cp hp)
  from a b c show ?thesis by simp
qed

subsection \<open>filetable_init: the steps\<close>

lemma init_loop_result:
  "(\<forall>fd. i \<le> fd \<and> fd < OPEN_MAX K \<longrightarrow> init_loop K i ft fd = None) \<and>
   (\<forall>fd. \<not> (i \<le> fd \<and> fd < OPEN_MAX K) \<longrightarrow> init_loop K i ft fd = ft fd)"
proof (induction K i ft rule: init_loop.induct)
  case (1 K i ft)
  show ?case
  proof (cases "i < OPEN_MAX K")
    case False
    then have "init_loop K i ft = ft" by (subst init_loop.simps) simp
    with False show ?thesis by auto
  next
    case True
    then have e: "init_loop K i ft = init_loop K (i + 1) (ft(i := None))"
      by (subst init_loop.simps) simp
    have IH: "(\<forall>fd. i + 1 \<le> fd \<and> fd < OPEN_MAX K \<longrightarrow>
                 init_loop K (i + 1) (ft(i := None)) fd = None) \<and>
              (\<forall>fd. \<not> (i + 1 \<le> fd \<and> fd < OPEN_MAX K) \<longrightarrow>
                 init_loop K (i + 1) (ft(i := None)) fd = (ft(i := None)) fd)"
      by (rule "1.IH"[OF True])
    show ?thesis
    proof (intro conjI allI impI)
      fix fd assume a: "i \<le> fd \<and> fd < OPEN_MAX K"
      show "init_loop K i ft fd = None"
      proof (cases "fd = i")
        case True
        then have "\<not> (i + 1 \<le> fd \<and> fd < OPEN_MAX K)" by simp
        with IH have "init_loop K (i + 1) (ft(i := None)) fd = (ft(i := None)) fd" by blast
        with True e show ?thesis by simp
      next
        case False
        with a have "i + 1 \<le> fd \<and> fd < OPEN_MAX K" by simp
        with IH have "init_loop K (i + 1) (ft(i := None)) fd = None" by blast
        with e show ?thesis by simp
      qed
    next
      fix fd assume a: "\<not> (i \<le> fd \<and> fd < OPEN_MAX K)"
      with True have ne: "fd \<noteq> i" and "\<not> (i + 1 \<le> fd \<and> fd < OPEN_MAX K)" by auto
      with IH have "init_loop K (i + 1) (ft(i := None)) fd = (ft(i := None)) fd" by blast
      with ne e show "init_loop K i ft fd = ft fd" by simp
    qed
  qed
qed

lemma init_loop_empty:
  assumes "0 \<le> fd" "fd < OPEN_MAX K"
  shows "init_loop K 0 junk fd = None"
  using init_loop_result[of 0 K junk] assms by blast

lemma lowest_free_is:
  assumes "lowest_free K ft m" "ft n = None" "0 \<le> n" "\<forall>j. 0 \<le> j \<and> j < n \<longrightarrow> ft j \<noteq> None"
  shows "m = n"
proof (rule ccontr)
  assume "m \<noteq> n"
  then consider "m < n" | "n < m" by linarith
  then show False
  proof cases
    case 1
    with assms(1,4) show False unfolding lowest_free_def by blast
  next
    case 2
    with assms(1,2,3) show False unfolding lowest_free_def by blast
  qed
qed

lemma file_open_OK_vfs:
  assumes "file_open K e filename flags md s = Inr (OK fd, s')"
  obtains v where "vfs_res e filename flags md = Inr v"
proof (cases "vfs_res e filename flags md")
  case (Inl r)
  from file_open_vfs_fails[OF Inl, of K s] assms show ?thesis by simp
next
  case (Inr v)
  then show ?thesis by (rule that)
qed

lemma filetable_init_asserts_pre:
  assumes "32 \<le> length inpath \<or> 32 \<le> length outpath \<or> 32 \<le> length errpath \<or> files s \<noteq> None"
  shows "filetable_init K tres e1 e2 e3 inpath outpath errpath s = Inl KASSERT_failed"
  using assms by (auto simp: filetable_init_def)

lemma filetable_init_returns_pre:
  assumes "filetable_init K tres e1 e2 e3 inpath outpath errpath s = Inr x"
  shows "length inpath < 32 \<and> length outpath < 32 \<and> length errpath < 32 \<and> files s = None"
proof (rule ccontr)
  assume "\<not> (length inpath < 32 \<and> length outpath < 32 \<and> length errpath < 32 \<and> files s = None)"
  then have "32 \<le> length inpath \<or> 32 \<le> length outpath \<or> 32 \<le> length errpath \<or> files s \<noteq> None"
    by auto
  from filetable_init_asserts_pre[OF this, of K tres e1 e2 e3] assms show False by simp
qed

lemma filetable_init_unfold:
  assumes "length inpath < 32" "length outpath < 32" "length errpath < 32" "files s = None"
    "tres = Some junk"
  shows "filetable_init K tres e1 e2 e3 inpath outpath errpath s =
     (case file_open K e1 inpath (O_RDONLY K) 0 (s\<lparr>files := Some (init_loop K 0 junk)\<rparr>) of
        Inl a \<Rightarrow> Inl a
      | Inr (Fail r, s1) \<Rightarrow> Inr (Fail r, s1)
      | Inr (OK fd1, s1) \<Rightarrow>
          (case file_open K e2 outpath (O_WRONLY K) 0 s1 of
             Inl a \<Rightarrow> Inl a
           | Inr (Fail r, s2) \<Rightarrow> Inr (Fail r, s2)
           | Inr (OK fd2, s2) \<Rightarrow>
               (case file_open K e3 errpath (O_WRONLY K) 0 s2 of
                  Inl a \<Rightarrow> Inl a
                | Inr (Fail r, s3) \<Rightarrow> Inr (Fail r, s3)
                | Inr (OK fd3, s3) \<Rightarrow> Inr (OK (), s3))))"
  using assms by (simp add: filetable_init_def Let_def)

lemma filetable_init_no_memory:
  assumes "length inpath < 32" "length outpath < 32" "length errpath < 32" "files s = None"
    "tres = None"
  shows "filetable_init K tres e1 e2 e3 inpath outpath errpath s = Inr (Fail ENOMEM, s)"
  using assms by (simp add: filetable_init_def)

lemma filetable_init_OK_steps:
  assumes "filetable_init K tres e1 e2 e3 inpath outpath errpath s = Inr (OK (), s')"
  obtains junk fd1 s1 fd2 s2 fd3 where "tres = Some junk" "files s = None"
    "file_open K e1 inpath (O_RDONLY K) 0 (s\<lparr>files := Some (init_loop K 0 junk)\<rparr>) = Inr (OK fd1, s1)"
    "file_open K e2 outpath (O_WRONLY K) 0 s1 = Inr (OK fd2, s2)"
    "file_open K e3 errpath (O_WRONLY K) 0 s2 = Inr (OK fd3, s')"
proof -
  from filetable_init_returns_pre[OF assms]
  have pre: "length inpath < 32" "length outpath < 32" "length errpath < 32" "files s = None"
    by simp_all
  obtain junk where junk: "tres = Some junk"
    using filetable_init_no_memory[OF pre, of tres K e1 e2 e3] assms by (cases tres) auto
  note unf = filetable_init_unfold[OF pre junk, of K e1 e2 e3]
  from assms[unfolded unf]
  obtain fd1 s1 where o1: "file_open K e1 inpath (O_RDONLY K) 0 (s\<lparr>files := Some (init_loop K 0 junk)\<rparr>)
        = Inr (OK fd1, s1)"
    by (auto split: sum.splits prod.splits ret.splits)
  from assms[unfolded unf] o1
  obtain fd2 s2 where o2: "file_open K e2 outpath (O_WRONLY K) 0 s1 = Inr (OK fd2, s2)"
    by (auto split: sum.splits prod.splits ret.splits)
  from assms[unfolded unf] o1 o2
  obtain fd3 where o3: "file_open K e3 errpath (O_WRONLY K) 0 s2 = Inr (OK fd3, s')"
    by (auto split: sum.splits prod.splits ret.splits)
  from that[OF junk pre(4) o1 o2 o3] show thesis .
qed

lemma file_open_OK_state:
  assumes "file_open K e filename flags md s = Inr (OK fd, s')" "files s = Some ft"
  obtains v a l where "vfs_res e filename flags md = Inr v" "kmalloc_res e = Some a"
    "lock_res e = Some l" "lowest_free K ft fd"
    "files s' = Some (ft(fd \<mapsto> a))"
    "heap s' = (heap s)(a \<mapsto> fresh_openfile K flags v l)"
    "locks s' = insert l (locks s)"
proof -
  from file_open_OK_vfs[OF assms(1)] obtain v where v: "vfs_res e filename flags md = Inr v" .
  from file_open_OK[OF v assms(1)]
  obtain a l ft' where p: "kmalloc_res e = Some a" "lock_res e = Some l" "files s = Some ft'"
    "lowest_free K ft' fd"
    "s' = (allocated s v a l (fresh_openfile K flags v l))\<lparr>files := Some (ft'(fd \<mapsto> a))\<rparr>"
    by blast
  from p(3) assms(2) have e: "ft' = ft" by simp
  note q = p(4,5)[unfolded e]
  show thesis
  proof (rule that[OF v p(1,2) q(1)])
    show "files s' = Some (ft(fd \<mapsto> a))" by (simp add: q(2))
    show "heap s' = (heap s)(a \<mapsto> fresh_openfile K flags v l)" by (simp add: q(2) allocated_def)
    show "locks s' = insert l (locks s)" by (simp add: q(2) allocated_def)
  qed
qed

lemma filetable_init_OK_post:
  assumes "filetable_init K tres e1 e2 e3 inpath outpath errpath s = Inr (OK (), s')"
  obtains junk v1 v2 v3 a1 a2 a3 l1 l2 l3 where
    "tres = Some junk" "files s = None" "3 \<le> OPEN_MAX K"
    "vfs_res e1 inpath (O_RDONLY K) 0 = Inr v1"
    "vfs_res e2 outpath (O_WRONLY K) 0 = Inr v2"
    "vfs_res e3 errpath (O_WRONLY K) 0 = Inr v3"
    "kmalloc_res e1 = Some a1" "kmalloc_res e2 = Some a2" "kmalloc_res e3 = Some a3"
    "lock_res e1 = Some l1" "lock_res e2 = Some l2" "lock_res e3 = Some l3"
    "files s' = Some ((init_loop K 0 junk)(0 \<mapsto> a1, 1 \<mapsto> a2, 2 \<mapsto> a3))"
    "heap s' = (heap s)(a1 \<mapsto> fresh_openfile K (O_RDONLY K) v1 l1,
                         a2 \<mapsto> fresh_openfile K (O_WRONLY K) v2 l2,
                         a3 \<mapsto> fresh_openfile K (O_WRONLY K) v3 l3)"
    "locks s' = insert l3 (insert l2 (insert l1 (locks s)))"
proof -
  from filetable_init_OK_steps[OF assms]
  obtain junk fd1 s1 fd2 s2 fd3 where junk: "tres = Some junk" and fs: "files s = None"
    and o1: "file_open K e1 inpath (O_RDONLY K) 0 (s\<lparr>files := Some (init_loop K 0 junk)\<rparr>)
               = Inr (OK fd1, s1)"
    and o2: "file_open K e2 outpath (O_WRONLY K) 0 s1 = Inr (OK fd2, s2)"
    and o3: "file_open K e3 errpath (O_WRONLY K) 0 s2 = Inr (OK fd3, s')"
    by blast
  define t0 where "t0 = init_loop K 0 junk"
  have f0: "files (s\<lparr>files := Some (init_loop K 0 junk)\<rparr>) = Some t0" by (simp add: t0_def)
  have t0: "t0 fd = None" if "0 \<le> fd" "fd < OPEN_MAX K" for fd
    unfolding t0_def using that by (rule init_loop_empty)
  from file_open_OK_state[OF o1 f0]
  obtain v1 a1 l1 where p1: "vfs_res e1 inpath (O_RDONLY K) 0 = Inr v1" "kmalloc_res e1 = Some a1"
    "lock_res e1 = Some l1" "lowest_free K t0 fd1" "files s1 = Some (t0(fd1 \<mapsto> a1))"
    "heap s1 = (heap s)(a1 \<mapsto> fresh_openfile K (O_RDONLY K) v1 l1)"
    "locks s1 = insert l1 (locks s)"
    by auto
  from p1(4) have m0: "0 < OPEN_MAX K" unfolding lowest_free_def by linarith
  have fd1: "fd1 = 0"
    by (rule lowest_free_is[OF p1(4)]) (simp_all add: t0 m0)
  define t1 where "t1 = t0(0 \<mapsto> a1)"
  from p1(5) have f1: "files s1 = Some t1" by (simp add: fd1 t1_def)
  from file_open_OK_state[OF o2 f1]
  obtain v2 a2 l2 where p2: "vfs_res e2 outpath (O_WRONLY K) 0 = Inr v2" "kmalloc_res e2 = Some a2"
    "lock_res e2 = Some l2" "lowest_free K t1 fd2" "files s2 = Some (t1(fd2 \<mapsto> a2))"
    "heap s2 = (heap s1)(a2 \<mapsto> fresh_openfile K (O_WRONLY K) v2 l2)"
    "locks s2 = insert l2 (locks s1)"
    by auto
  from p2(4) have "fd2 \<noteq> 0" "0 \<le> fd2" "fd2 < OPEN_MAX K"
    unfolding lowest_free_def by (auto simp: t1_def)
  then have m1: "1 < OPEN_MAX K" by linarith
  have fd2: "fd2 = 1"
  proof (rule lowest_free_is[OF p2(4)])
    show "t1 1 = None" using m1 by (simp add: t1_def t0)
    show "\<forall>j. 0 \<le> j \<and> j < 1 \<longrightarrow> t1 j \<noteq> None"
    proof (intro allI impI)
      fix j :: int assume "0 \<le> j \<and> j < 1"
      then have "j = 0" by linarith
      then show "t1 j \<noteq> None" by (simp add: t1_def)
    qed
  qed simp
  define t2 where "t2 = t1(1 \<mapsto> a2)"
  from p2(5) have f2: "files s2 = Some t2" by (simp add: fd2 t2_def)
  from file_open_OK_state[OF o3 f2]
  obtain v3 a3 l3 where p3: "vfs_res e3 errpath (O_WRONLY K) 0 = Inr v3" "kmalloc_res e3 = Some a3"
    "lock_res e3 = Some l3" "lowest_free K t2 fd3" "files s' = Some (t2(fd3 \<mapsto> a3))"
    "heap s' = (heap s2)(a3 \<mapsto> fresh_openfile K (O_WRONLY K) v3 l3)"
    "locks s' = insert l3 (locks s2)"
    by auto
  from p3(4) have "fd3 \<noteq> 0" "fd3 \<noteq> 1" "0 \<le> fd3" "fd3 < OPEN_MAX K"
    unfolding lowest_free_def by (auto simp: t2_def t1_def)
  then have m2: "2 < OPEN_MAX K" by linarith
  have fd3: "fd3 = 2"
  proof (rule lowest_free_is[OF p3(4)])
    show "t2 2 = None" using m2 by (simp add: t2_def t1_def t0)
    show "\<forall>j. 0 \<le> j \<and> j < 2 \<longrightarrow> t2 j \<noteq> None"
    proof (intro allI impI)
      fix j :: int assume "0 \<le> j \<and> j < 2"
      then have "j = 0 \<or> j = 1" by linarith
      then show "t2 j \<noteq> None" by (auto simp: t2_def t1_def)
    qed
  qed simp
  show thesis
  proof (rule that[OF junk fs _ p1(1) p2(1) p3(1) p1(2) p2(2) p3(2) p1(3) p2(3) p3(3)])
    show "3 \<le> OPEN_MAX K" using m2 by simp
    show "files s' = Some ((init_loop K 0 junk)(0 \<mapsto> a1, 1 \<mapsto> a2, 2 \<mapsto> a3))"
      by (simp add: p3(5) fd3 t2_def t1_def t0_def)
    show "heap s' = (heap s)(a1 \<mapsto> fresh_openfile K (O_RDONLY K) v1 l1,
                         a2 \<mapsto> fresh_openfile K (O_WRONLY K) v2 l2,
                         a3 \<mapsto> fresh_openfile K (O_WRONLY K) v3 l3)"
      by (simp add: p3(6) p2(6) p1(6))
    show "locks s' = insert l3 (insert l2 (insert l1 (locks s)))"
      by (simp add: p3(7) p2(7) p1(7))
  qed
qed

lemma filetable_init_succeeds:
  assumes pre: "length inpath < 32" "length outpath < 32" "length errpath < 32" "files s = None"
    and junk: "tres = Some junk"
    and v: "vfs_res e1 inpath (O_RDONLY K) 0 = Inr v1" "vfs_res e2 outpath (O_WRONLY K) 0 = Inr v2"
      "vfs_res e3 errpath (O_WRONLY K) 0 = Inr v3"
    and a: "kmalloc_res e1 = Some a1" "kmalloc_res e2 = Some a2" "kmalloc_res e3 = Some a3"
    and l: "lock_res e1 = Some l1" "lock_res e2 = Some l2" "lock_res e3 = Some l3"
    and va: "valid_accmode K (O_RDONLY K)" "valid_accmode K (O_WRONLY K)"
    and m: "3 \<le> OPEN_MAX K"
  shows "\<exists>s'. filetable_init K tres e1 e2 e3 inpath outpath errpath s = Inr (OK (), s')"
proof -
  define t0 where "t0 = init_loop K 0 junk"
  define s0 where "s0 = s\<lparr>files := Some t0\<rparr>"
  have t0: "t0 fd = None" if "0 \<le> fd" "fd < OPEN_MAX K" for fd
    unfolding t0_def using that by (rule init_loop_empty)
  have f0: "files s0 = Some t0" by (simp add: s0_def)
  have lf0: "lowest_free K t0 0"
    unfolding lowest_free_def using m by (auto simp: t0)
  define s1 where "s1 = (allocated s0 v1 a1 l1 (fresh_openfile K (O_RDONLY K) v1 l1))
                          \<lparr>files := Some (t0(0 \<mapsto> a1))\<rparr>"
  have o1: "file_open K e1 inpath (O_RDONLY K) 0 s0 = Inr (OK 0, s1)"
    unfolding s1_def by (rule file_open_succeeds[OF v(1) a(1) l(1) va(1) f0 lf0])
  define t1 where "t1 = t0(0 \<mapsto> a1)"
  have f1: "files s1 = Some t1" by (simp add: s1_def t1_def)
  have lf1: "lowest_free K t1 1"
    unfolding lowest_free_def
  proof (intro conjI allI impI)
    show "t1 1 = None" using m by (simp add: t1_def t0)
    fix j :: int assume "0 \<le> j \<and> j < 1"
    then have "j = 0" by linarith
    then show "t1 j \<noteq> None" by (simp add: t1_def)
  qed (use m in simp_all)
  define s2 where "s2 = (allocated s1 v2 a2 l2 (fresh_openfile K (O_WRONLY K) v2 l2))
                          \<lparr>files := Some (t1(1 \<mapsto> a2))\<rparr>"
  have o2: "file_open K e2 outpath (O_WRONLY K) 0 s1 = Inr (OK 1, s2)"
    unfolding s2_def by (rule file_open_succeeds[OF v(2) a(2) l(2) va(2) f1 lf1])
  define t2 where "t2 = t1(1 \<mapsto> a2)"
  have f2: "files s2 = Some t2" by (simp add: s2_def t2_def)
  have lf2: "lowest_free K t2 2"
    unfolding lowest_free_def
  proof (intro conjI allI impI)
    show "t2 2 = None" using m by (simp add: t2_def t1_def t0)
    fix j :: int assume "0 \<le> j \<and> j < 2"
    then have "j = 0 \<or> j = 1" by linarith
    then show "t2 j \<noteq> None" by (auto simp: t2_def t1_def)
  qed (use m in simp_all)
  define s3 where "s3 = (allocated s2 v3 a3 l3 (fresh_openfile K (O_WRONLY K) v3 l3))
                          \<lparr>files := Some (t2(2 \<mapsto> a3))\<rparr>"
  have o3: "file_open K e3 errpath (O_WRONLY K) 0 s2 = Inr (OK 2, s3)"
    unfolding s3_def by (rule file_open_succeeds[OF v(3) a(3) l(3) va(2) f2 lf2])
  have "filetable_init K tres e1 e2 e3 inpath outpath errpath s = Inr (OK (), s3)"
    by (simp add: filetable_init_unfold[OF pre junk] o1[unfolded s0_def t0_def] o2 o3)
  then show ?thesis by blast
qed

subsection \<open>filetable_init\<close>

text \<open>
  C8. When \<open>filetable_init\<close> returns 0, the three calls of \<open>vfs_open\<close> (for \<open>inpath\<close> with
  O_RDONLY, then \<open>outpath\<close> and \<open>errpath\<close> with O_WRONLY), of \<open>kmalloc\<close> and of
  \<open>lock_create\<close> all succeeded, descriptor 0 refers to the openfile of the first call,
  descriptor 1 to that of the second and descriptor 2 to that of the third, every other
  descriptor is EBADF, and the heap is the one before the call plus these three openfiles,
  each with offset 0, refcount 1, its vnode and the access bits of its flags. When one of
  the three calls of \<open>file_open\<close> returns an error, \<open>filetable_init\<close> returns that error and
  the state that call left, without making the later calls. Initialization does succeed when
  the collaborators do, the two flag values are valid access modes and the table has at least
  three slots.
\<close>

theorem filetable_init_std_descriptors:
  "(\<forall>s'. filetable_init K tres e1 e2 e3 inpath outpath errpath s = Inr (OK (), s') \<longrightarrow>
      (\<exists>v1 v2 v3 a1 a2 a3 l1 l2 l3.
         vfs_res e1 inpath (O_RDONLY K) 0 = Inr v1 \<and>
         vfs_res e2 outpath (O_WRONLY K) 0 = Inr v2 \<and>
         vfs_res e3 errpath (O_WRONLY K) 0 = Inr v3 \<and>
         kmalloc_res e1 = Some a1 \<and> kmalloc_res e2 = Some a2 \<and> kmalloc_res e3 = Some a3 \<and>
         lock_res e1 = Some l1 \<and> lock_res e2 = Some l2 \<and> lock_res e3 = Some l3 \<and>
         filetable_findfile K 0 s' = Inr (OK a1) \<and>
         filetable_findfile K 1 s' = Inr (OK a2) \<and>
         filetable_findfile K 2 s' = Inr (OK a3) \<and>
         (\<forall>fd. fd < 0 \<or> 3 \<le> fd \<longrightarrow> filetable_findfile K fd s' = Inr (Fail EBADF)) \<and>
         heap s' = (heap s)(a1 \<mapsto> fresh_openfile K (O_RDONLY K) v1 l1,
                            a2 \<mapsto> fresh_openfile K (O_WRONLY K) v2 l2,
                            a3 \<mapsto> fresh_openfile K (O_WRONLY K) v3 l3) \<and>
         (a1 \<noteq> a2 \<and> a1 \<noteq> a3 \<and> a2 \<noteq> a3 \<longrightarrow>
            heap s' a1 = Some (fresh_openfile K (O_RDONLY K) v1 l1) \<and>
            heap s' a2 = Some (fresh_openfile K (O_WRONLY K) v2 l2) \<and>
            heap s' a3 = Some (fresh_openfile K (O_WRONLY K) v3 l3))))
   \<and> (\<forall>junk. length inpath < 32 \<and> length outpath < 32 \<and> length errpath < 32 \<and>
             files s = None \<and> tres = Some junk \<longrightarrow>
        (\<forall>r s1. file_open K e1 inpath (O_RDONLY K) 0 (s\<lparr>files := Some (init_loop K 0 junk)\<rparr>)
                   = Inr (Fail r, s1) \<longrightarrow>
           filetable_init K tres e1 e2 e3 inpath outpath errpath s = Inr (Fail r, s1)) \<and>
        (\<forall>fd1 s1 r s2.
           file_open K e1 inpath (O_RDONLY K) 0 (s\<lparr>files := Some (init_loop K 0 junk)\<rparr>)
             = Inr (OK fd1, s1) \<and>
           file_open K e2 outpath (O_WRONLY K) 0 s1 = Inr (Fail r, s2) \<longrightarrow>
           filetable_init K tres e1 e2 e3 inpath outpath errpath s = Inr (Fail r, s2)) \<and>
        (\<forall>fd1 s1 fd2 s2 r s3.
           file_open K e1 inpath (O_RDONLY K) 0 (s\<lparr>files := Some (init_loop K 0 junk)\<rparr>)
             = Inr (OK fd1, s1) \<and>
           file_open K e2 outpath (O_WRONLY K) 0 s1 = Inr (OK fd2, s2) \<and>
           file_open K e3 errpath (O_WRONLY K) 0 s2 = Inr (Fail r, s3) \<longrightarrow>
           filetable_init K tres e1 e2 e3 inpath outpath errpath s = Inr (Fail r, s3)))
   \<and> (\<forall>junk v1 v2 v3 a1 a2 a3 l1 l2 l3.
         length inpath < 32 \<and> length outpath < 32 \<and> length errpath < 32 \<and>
         files s = None \<and> tres = Some junk \<and>
         vfs_res e1 inpath (O_RDONLY K) 0 = Inr v1 \<and>
         vfs_res e2 outpath (O_WRONLY K) 0 = Inr v2 \<and>
         vfs_res e3 errpath (O_WRONLY K) 0 = Inr v3 \<and>
         kmalloc_res e1 = Some a1 \<and> kmalloc_res e2 = Some a2 \<and> kmalloc_res e3 = Some a3 \<and>
         lock_res e1 = Some l1 \<and> lock_res e2 = Some l2 \<and> lock_res e3 = Some l3 \<and>
         valid_accmode K (O_RDONLY K) \<and> valid_accmode K (O_WRONLY K) \<and> 3 \<le> OPEN_MAX K \<longrightarrow>
         (\<exists>s'. filetable_init K tres e1 e2 e3 inpath outpath errpath s = Inr (OK (), s')))"
proof (intro conjI allI impI)
  fix s' assume ok: "filetable_init K tres e1 e2 e3 inpath outpath errpath s = Inr (OK (), s')"
  show "\<exists>v1 v2 v3 a1 a2 a3 l1 l2 l3.
         vfs_res e1 inpath (O_RDONLY K) 0 = Inr v1 \<and>
         vfs_res e2 outpath (O_WRONLY K) 0 = Inr v2 \<and>
         vfs_res e3 errpath (O_WRONLY K) 0 = Inr v3 \<and>
         kmalloc_res e1 = Some a1 \<and> kmalloc_res e2 = Some a2 \<and> kmalloc_res e3 = Some a3 \<and>
         lock_res e1 = Some l1 \<and> lock_res e2 = Some l2 \<and> lock_res e3 = Some l3 \<and>
         filetable_findfile K 0 s' = Inr (OK a1) \<and>
         filetable_findfile K 1 s' = Inr (OK a2) \<and>
         filetable_findfile K 2 s' = Inr (OK a3) \<and>
         (\<forall>fd. fd < 0 \<or> 3 \<le> fd \<longrightarrow> filetable_findfile K fd s' = Inr (Fail EBADF)) \<and>
         heap s' = (heap s)(a1 \<mapsto> fresh_openfile K (O_RDONLY K) v1 l1,
                            a2 \<mapsto> fresh_openfile K (O_WRONLY K) v2 l2,
                            a3 \<mapsto> fresh_openfile K (O_WRONLY K) v3 l3) \<and>
         (a1 \<noteq> a2 \<and> a1 \<noteq> a3 \<and> a2 \<noteq> a3 \<longrightarrow>
            heap s' a1 = Some (fresh_openfile K (O_RDONLY K) v1 l1) \<and>
            heap s' a2 = Some (fresh_openfile K (O_WRONLY K) v2 l2) \<and>
            heap s' a3 = Some (fresh_openfile K (O_WRONLY K) v3 l3))"
  proof (rule filetable_init_OK_post[OF ok])
  fix junk v1 v2 v3 a1 a2 a3 l1 l2 l3
  assume "tres = Some junk" "files s = None"
    and m: "3 \<le> OPEN_MAX K"
    and v: "vfs_res e1 inpath (O_RDONLY K) 0 = Inr v1"
      "vfs_res e2 outpath (O_WRONLY K) 0 = Inr v2"
      "vfs_res e3 errpath (O_WRONLY K) 0 = Inr v3"
    and a: "kmalloc_res e1 = Some a1" "kmalloc_res e2 = Some a2" "kmalloc_res e3 = Some a3"
    and l: "lock_res e1 = Some l1" "lock_res e2 = Some l2" "lock_res e3 = Some l3"
    and fs': "files s' = Some ((init_loop K 0 junk)(0 \<mapsto> a1, 1 \<mapsto> a2, 2 \<mapsto> a3))"
    and hs': "heap s' = (heap s)(a1 \<mapsto> fresh_openfile K (O_RDONLY K) v1 l1,
                         a2 \<mapsto> fresh_openfile K (O_WRONLY K) v2 l2,
                         a3 \<mapsto> fresh_openfile K (O_WRONLY K) v3 l3)"
    and "locks s' = insert l3 (insert l2 (insert l1 (locks s)))"
  have d0: "filetable_findfile K 0 s' = Inr (OK a1)"
    by (rule filetable_findfile_slot[OF _ _ fs']) (use m in simp_all)
  have d1: "filetable_findfile K 1 s' = Inr (OK a2)"
    by (rule filetable_findfile_slot[OF _ _ fs']) (use m in simp_all)
  have d2: "filetable_findfile K 2 s' = Inr (OK a3)"
    by (rule filetable_findfile_slot[OF _ _ fs']) (use m in simp_all)
  have rest: "\<forall>fd. fd < 0 \<or> 3 \<le> fd \<longrightarrow> filetable_findfile K fd s' = Inr (Fail EBADF)"
  proof (intro allI impI)
    fix fd :: int assume o: "fd < 0 \<or> 3 \<le> fd"
    show "filetable_findfile K fd s' = Inr (Fail EBADF)"
    proof (cases "fd < 0 \<or> OPEN_MAX K \<le> fd")
      case True
      then show ?thesis by (auto simp: filetable_findfile_def)
    next
      case False
      with o have r: "3 \<le> fd" "0 \<le> fd" "fd < OPEN_MAX K" by simp_all
      then have "((init_loop K 0 junk)(0 \<mapsto> a1, 1 \<mapsto> a2, 2 \<mapsto> a3)) fd = None"
        by (simp add: init_loop_empty)
      with r show ?thesis by (simp add: filetable_findfile_def fs')
    qed
  qed
  have dist: "a1 \<noteq> a2 \<and> a1 \<noteq> a3 \<and> a2 \<noteq> a3 \<longrightarrow>
            heap s' a1 = Some (fresh_openfile K (O_RDONLY K) v1 l1) \<and>
            heap s' a2 = Some (fresh_openfile K (O_WRONLY K) v2 l2) \<and>
            heap s' a3 = Some (fresh_openfile K (O_WRONLY K) v3 l3)"
    by (simp add: hs')
  show ?thesis
    by (rule exI[of _ v1], rule exI[of _ v2], rule exI[of _ v3], rule exI[of _ a1],
        rule exI[of _ a2], rule exI[of _ a3], rule exI[of _ l1], rule exI[of _ l2],
        rule exI[of _ l3], intro conjI)
       (rule v a l d0 d1 d2 rest hs' dist)+
  qed
next
  fix junk r s1
  assume pre: "length inpath < 32 \<and> length outpath < 32 \<and> length errpath < 32 \<and>
          files s = None \<and> tres = Some junk"
    and o: "file_open K e1 inpath (O_RDONLY K) 0 (s\<lparr>files := Some (init_loop K 0 junk)\<rparr>)
           = Inr (Fail r, s1)"
  from pre have unf: "filetable_init K tres e1 e2 e3 inpath outpath errpath s =
     (case file_open K e1 inpath (O_RDONLY K) 0 (s\<lparr>files := Some (init_loop K 0 junk)\<rparr>) of
        Inl a \<Rightarrow> Inl a
      | Inr (Fail r, s1) \<Rightarrow> Inr (Fail r, s1)
      | Inr (OK fd1, s1) \<Rightarrow>
          (case file_open K e2 outpath (O_WRONLY K) 0 s1 of
             Inl a \<Rightarrow> Inl a
           | Inr (Fail r, s2) \<Rightarrow> Inr (Fail r, s2)
           | Inr (OK fd2, s2) \<Rightarrow>
               (case file_open K e3 errpath (O_WRONLY K) 0 s2 of
                  Inl a \<Rightarrow> Inl a
                | Inr (Fail r, s3) \<Rightarrow> Inr (Fail r, s3)
                | Inr (OK fd3, s3) \<Rightarrow> Inr (OK (), s3))))"
    by (intro filetable_init_unfold) simp_all
  show "filetable_init K tres e1 e2 e3 inpath outpath errpath s = Inr (Fail r, s1)"
    by (simp only: unf o sum.case prod.case ret.case)
next
  fix junk fd1 s1 r s2
  assume pre: "length inpath < 32 \<and> length outpath < 32 \<and> length errpath < 32 \<and>
          files s = None \<and> tres = Some junk"
    and o: "file_open K e1 inpath (O_RDONLY K) 0 (s\<lparr>files := Some (init_loop K 0 junk)\<rparr>)
           = Inr (OK fd1, s1) \<and>
         file_open K e2 outpath (O_WRONLY K) 0 s1 = Inr (Fail r, s2)"
  from pre have unf: "filetable_init K tres e1 e2 e3 inpath outpath errpath s =
     (case file_open K e1 inpath (O_RDONLY K) 0 (s\<lparr>files := Some (init_loop K 0 junk)\<rparr>) of
        Inl a \<Rightarrow> Inl a
      | Inr (Fail r, s1) \<Rightarrow> Inr (Fail r, s1)
      | Inr (OK fd1, s1) \<Rightarrow>
          (case file_open K e2 outpath (O_WRONLY K) 0 s1 of
             Inl a \<Rightarrow> Inl a
           | Inr (Fail r, s2) \<Rightarrow> Inr (Fail r, s2)
           | Inr (OK fd2, s2) \<Rightarrow>
               (case file_open K e3 errpath (O_WRONLY K) 0 s2 of
                  Inl a \<Rightarrow> Inl a
                | Inr (Fail r, s3) \<Rightarrow> Inr (Fail r, s3)
                | Inr (OK fd3, s3) \<Rightarrow> Inr (OK (), s3))))"
    by (intro filetable_init_unfold) simp_all
  show "filetable_init K tres e1 e2 e3 inpath outpath errpath s = Inr (Fail r, s2)"
    by (simp only: unf conjunct1[OF o] conjunct2[OF o] sum.case prod.case ret.case)
next
  fix junk fd1 s1 fd2 s2 r s3
  assume pre: "length inpath < 32 \<and> length outpath < 32 \<and> length errpath < 32 \<and>
          files s = None \<and> tres = Some junk"
    and o: "file_open K e1 inpath (O_RDONLY K) 0 (s\<lparr>files := Some (init_loop K 0 junk)\<rparr>)
           = Inr (OK fd1, s1) \<and>
         file_open K e2 outpath (O_WRONLY K) 0 s1 = Inr (OK fd2, s2) \<and>
         file_open K e3 errpath (O_WRONLY K) 0 s2 = Inr (Fail r, s3)"
  from pre have unf: "filetable_init K tres e1 e2 e3 inpath outpath errpath s =
     (case file_open K e1 inpath (O_RDONLY K) 0 (s\<lparr>files := Some (init_loop K 0 junk)\<rparr>) of
        Inl a \<Rightarrow> Inl a
      | Inr (Fail r, s1) \<Rightarrow> Inr (Fail r, s1)
      | Inr (OK fd1, s1) \<Rightarrow>
          (case file_open K e2 outpath (O_WRONLY K) 0 s1 of
             Inl a \<Rightarrow> Inl a
           | Inr (Fail r, s2) \<Rightarrow> Inr (Fail r, s2)
           | Inr (OK fd2, s2) \<Rightarrow>
               (case file_open K e3 errpath (O_WRONLY K) 0 s2 of
                  Inl a \<Rightarrow> Inl a
                | Inr (Fail r, s3) \<Rightarrow> Inr (Fail r, s3)
                | Inr (OK fd3, s3) \<Rightarrow> Inr (OK (), s3))))"
    by (intro filetable_init_unfold) simp_all
  from o have o1: "file_open K e1 inpath (O_RDONLY K) 0 (s\<lparr>files := Some (init_loop K 0 junk)\<rparr>)
           = Inr (OK fd1, s1)"
    and o2: "file_open K e2 outpath (O_WRONLY K) 0 s1 = Inr (OK fd2, s2)"
    and o3: "file_open K e3 errpath (O_WRONLY K) 0 s2 = Inr (Fail r, s3)" by simp_all
  show "filetable_init K tres e1 e2 e3 inpath outpath errpath s = Inr (Fail r, s3)"
    by (simp only: unf o1 o2 o3 sum.case prod.case ret.case)
next
  fix junk v1 v2 v3 a1 a2 a3 l1 l2 l3
  assume "length inpath < 32 \<and> length outpath < 32 \<and> length errpath < 32 \<and>
         files s = None \<and> tres = Some junk \<and>
         vfs_res e1 inpath (O_RDONLY K) 0 = Inr v1 \<and>
         vfs_res e2 outpath (O_WRONLY K) 0 = Inr v2 \<and>
         vfs_res e3 errpath (O_WRONLY K) 0 = Inr v3 \<and>
         kmalloc_res e1 = Some a1 \<and> kmalloc_res e2 = Some a2 \<and> kmalloc_res e3 = Some a3 \<and>
         lock_res e1 = Some l1 \<and> lock_res e2 = Some l2 \<and> lock_res e3 = Some l3 \<and>
         valid_accmode K (O_RDONLY K) \<and> valid_accmode K (O_WRONLY K) \<and> 3 \<le> OPEN_MAX K"
  then show "\<exists>s'. filetable_init K tres e1 e2 e3 inpath outpath errpath s = Inr (OK (), s')"
    by (intro filetable_init_succeeds[where junk = junk and ?v1.0 = v1 and ?v2.0 = v2 and ?v3.0 = v3
          and ?a1.0 = a1 and ?a2.0 = a2 and ?a3.0 = a3 and ?l1.0 = l1 and ?l2.0 = l2 and ?l3.0 = l3])
       simp_all
qed

lemma boot_facts:
  "files sBoot = None" "heap sBoot = Map.empty"
  "vfs_res e0 p fl md = Inr 32" "vfs_res eOut p fl md = Inr 33" "vfs_res eErr p fl md = Inr 34"
  "kmalloc_res e0 = Some 12" "kmalloc_res eOut = Some 13" "kmalloc_res eErr = Some 14"
  "lock_res e0 = Some 22" "lock_res eOut = Some 23" "lock_res eErr = Some 24"
  by (simp_all add: sBoot_def e0_def eOut_def eErr_def)

lemma K0_valid: "valid_accmode K0 (O_RDONLY K0)" "valid_accmode K0 (O_WRONLY K0)"
  by (simp_all add: valid_accmode_def K0_simps)

theorem filetable_init_std_descriptors_witness:
  "(case filetable_init K0 (Some ftFull) e0 eOut eErr ''con:'' ''con:'' ''con:'' sBoot of
      Inr (OK u, s') \<Rightarrow>
        filetable_findfile K0 0 s' = Inr (OK 12) \<and>
        filetable_findfile K0 1 s' = Inr (OK 13) \<and>
        filetable_findfile K0 2 s' = Inr (OK 14) \<and>
        filetable_findfile K0 3 s' = Inr (Fail EBADF) \<and>
        heap s' 12 = Some \<lparr>vn = 32, lock = 22, offset = 0, mode = 0, refs = 1\<rparr> \<and>
        heap s' 13 = Some \<lparr>vn = 33, lock = 23, offset = 0, mode = 1, refs = 1\<rparr> \<and>
        heap s' 14 = Some \<lparr>vn = 34, lock = 24, offset = 0, mode = 1, refs = 1\<rparr>
    | _ \<Rightarrow> False)"
proof -
  note inst = filetable_init_std_descriptors[of K0 "Some ftFull" e0 eOut eErr
      "''con:''" "''con:''" "''con:''" sBoot]
  have "\<exists>s'. filetable_init K0 (Some ftFull) e0 eOut eErr ''con:'' ''con:'' ''con:'' sBoot
          = Inr (OK (), s')"
    using inst[THEN conjunct2, THEN conjunct2] boot_facts K0_valid
    by (simp add: K0_simps)
  then obtain s' where ok: "filetable_init K0 (Some ftFull) e0 eOut eErr ''con:'' ''con:'' ''con:'' sBoot
          = Inr (OK (), s')" by blast
  from inst[THEN conjunct1, rule_format, OF ok]
  have p: "filetable_findfile K0 0 s' = Inr (OK 12)" "filetable_findfile K0 1 s' = Inr (OK 13)"
    "filetable_findfile K0 2 s' = Inr (OK 14)"
    "\<forall>fd. fd < 0 \<or> 3 \<le> fd \<longrightarrow> filetable_findfile K0 fd s' = Inr (Fail EBADF)"
    "heap s' 12 = Some (fresh_openfile K0 (O_RDONLY K0) 32 22)"
    "heap s' 13 = Some (fresh_openfile K0 (O_WRONLY K0) 33 23)"
    "heap s' 14 = Some (fresh_openfile K0 (O_WRONLY K0) 34 24)"
    by (auto simp: boot_facts)
  from p(4) have q: "filetable_findfile K0 3 s' = Inr (Fail EBADF)" by simp
  from p q show ?thesis by (simp add: ok fresh_openfile_def K0_simps)
qed

text \<open>
  C10. \<open>filetable_init\<close> stops on a failed assertion, and does not return an error, when
  one of the three path names has 32 characters or more or the process already has a table;
  so whenever it returns, with 0 or with an error, each of the three names is shorter than 32
  and the process had no table. After an initialization that returned 0 the process has a
  table, and any further initialization stops on the assertion.
\<close>

theorem filetable_init_assertions:
  "(32 \<le> length inpath \<or> 32 \<le> length outpath \<or> 32 \<le> length errpath \<or> files s \<noteq> None \<longrightarrow>
      filetable_init K tres e1 e2 e3 inpath outpath errpath s = Inl KASSERT_failed)
   \<and> (\<forall>x. filetable_init K tres e1 e2 e3 inpath outpath errpath s = Inr x \<longrightarrow>
          length inpath < 32 \<and> length outpath < 32 \<and> length errpath < 32 \<and> files s = None)
   \<and> (\<forall>s'. filetable_init K tres e1 e2 e3 inpath outpath errpath s = Inr (OK (), s') \<longrightarrow>
          filetable_init K tres' e1' e2' e3' inpath' outpath' errpath' s' = Inl KASSERT_failed)"
proof (intro conjI allI impI)
  assume "32 \<le> length inpath \<or> 32 \<le> length outpath \<or> 32 \<le> length errpath \<or> files s \<noteq> None"
  then show "filetable_init K tres e1 e2 e3 inpath outpath errpath s = Inl KASSERT_failed"
    by (rule filetable_init_asserts_pre)
next
  fix x assume "filetable_init K tres e1 e2 e3 inpath outpath errpath s = Inr x"
  from filetable_init_returns_pre[OF this]
  show "length inpath < 32" "length outpath < 32" "length errpath < 32" "files s = None"
    by simp_all
next
  fix s' assume ok: "filetable_init K tres e1 e2 e3 inpath outpath errpath s = Inr (OK (), s')"
  have "files s' \<noteq> None"
    by (rule filetable_init_OK_post[OF ok]) simp
  then show "filetable_init K tres' e1' e2' e3' inpath' outpath' errpath' s' = Inl KASSERT_failed"
    by (intro filetable_init_asserts_pre) simp
qed

theorem filetable_init_assertions_witness:
  "length ''0123456789abcdef0123456789abcdef'' = 32 \<and>
   filetable_init K0 (Some ftFull) e0 eOut eErr ''0123456789abcdef0123456789abcdef'' ''con:'' ''con:''
     sBoot = Inl KASSERT_failed \<and>
   filetable_init K0 (Some ftFull) e0 eOut eErr ''con:'' ''con:'' ''0123456789abcdef0123456789abcdef''
     sBoot = Inl KASSERT_failed \<and>
   files sA \<noteq> None \<and>
   filetable_init K0 (Some ftFull) e0 eOut eErr ''con:'' ''con:'' ''con:'' sA = Inl KASSERT_failed \<and>
   (case filetable_init K0 (Some ftFull) e0 eOut eErr ''con:'' ''con:'' ''con:'' sBoot of
      Inr (OK u, s') \<Rightarrow>
        filetable_init K0 (Some ftFull) e0 eOut eErr ''con:'' ''con:'' ''con:'' s' = Inl KASSERT_failed
    | _ \<Rightarrow> False)"
proof -
  have a: "filetable_init K0 (Some ftFull) e0 eOut eErr ''0123456789abcdef0123456789abcdef''
     ''con:'' ''con:'' sBoot = Inl KASSERT_failed"
    using filetable_init_assertions[of "''0123456789abcdef0123456789abcdef''" "''con:''" "''con:''"
        sBoot K0 "Some ftFull" e0 eOut eErr]
    by simp
  have b: "filetable_init K0 (Some ftFull) e0 eOut eErr ''con:'' ''con:''
     ''0123456789abcdef0123456789abcdef'' sBoot = Inl KASSERT_failed"
    using filetable_init_assertions[of "''con:''" "''con:''" "''0123456789abcdef0123456789abcdef''"
        sBoot K0 "Some ftFull" e0 eOut eErr]
    by simp
  have f: "files sA \<noteq> None" by (simp add: sA_def)
  have c: "filetable_init K0 (Some ftFull) e0 eOut eErr ''con:'' ''con:'' ''con:'' sA
      = Inl KASSERT_failed"
    using filetable_init_assertions[of "''con:''" "''con:''" "''con:''" sA K0 "Some ftFull"
        e0 eOut eErr] f
    by simp
  have "\<exists>s'. filetable_init K0 (Some ftFull) e0 eOut eErr ''con:'' ''con:'' ''con:'' sBoot
          = Inr (OK (), s')"
    by (rule filetable_init_succeeds[where junk = ftFull and ?v1.0 = 32 and ?v2.0 = 33
          and ?v3.0 = 34 and ?a1.0 = 12 and ?a2.0 = 13 and ?a3.0 = 14 and ?l1.0 = 22
          and ?l2.0 = 23 and ?l3.0 = 24])
       (simp_all add: boot_facts K0_valid[unfolded K0_simps] K0_simps)
  then obtain s' where ok: "filetable_init K0 (Some ftFull) e0 eOut eErr ''con:'' ''con:'' ''con:'' sBoot
          = Inr (OK (), s')" by blast
  from filetable_init_assertions[of "''con:''" "''con:''" "''con:''" sBoot K0 "Some ftFull"
        e0 eOut eErr "Some ftFull" e0 eOut eErr "''con:''" "''con:''" "''con:''"] ok
  have "filetable_init K0 (Some ftFull) e0 eOut eErr ''con:'' ''con:'' ''con:'' s' = Inl KASSERT_failed"
    by blast
  then have d: "(case filetable_init K0 (Some ftFull) e0 eOut eErr ''con:'' ''con:'' ''con:'' sBoot of
      Inr (OK u, s') \<Rightarrow>
        filetable_init K0 (Some ftFull) e0 eOut eErr ''con:'' ''con:'' ''con:'' s' = Inl KASSERT_failed
    | _ \<Rightarrow> False)"
    by (simp add: ok)
  from a b f c d show ?thesis by simp
qed

subsection \<open>Counting the slots that hold an openfile\<close>


lemma slots_from_upd:
  assumes "i \<le> fd" "fd < OPEN_MAX K"
  shows "slots_from K i (ft(fd := v)) a + (if ft fd = Some a then 1 else 0) =
         slots_from K i ft a + (if v = Some a then 1 else 0)"
proof -
  have sp: "[i..OPEN_MAX K - 1] = [i..fd - 1] @ fd # [fd + 1..OPEN_MAX K - 1]"
    using assms by (intro upto_split3) simp_all
  have l: "length (filter (\<lambda>x. (ft(fd := v)) x = Some a) [i..fd - 1]) =
           length (filter (\<lambda>x. ft x = Some a) [i..fd - 1])"
    by (rule arg_cong[where f = length], rule filter_cong) auto
  have r: "length (filter (\<lambda>x. (ft(fd := v)) x = Some a) [fd + 1..OPEN_MAX K - 1]) =
           length (filter (\<lambda>x. ft x = Some a) [fd + 1..OPEN_MAX K - 1])"
    by (rule arg_cong[where f = length], rule filter_cong) auto
  have m: "length (filter (\<lambda>x. (ft(fd := v)) x = Some a) [fd]) + (if ft fd = Some a then 1 else 0) =
           length (filter (\<lambda>x. ft x = Some a) [fd]) + (if v = Some a then 1 else 0)"
    by simp
  have d: "length (filter P ([i..fd - 1] @ fd # [fd + 1..OPEN_MAX K - 1])) =
           length (filter P [i..fd - 1]) + length (filter P [fd]) +
           length (filter P [fd + 1..OPEN_MAX K - 1])" for P :: "int \<Rightarrow> bool"
    by simp
  show ?thesis
    unfolding slots_from_def sp d l r using m by linarith
qed



lemma slots_from_pos:
  assumes "i \<le> fd" "fd < OPEN_MAX K" "ft fd = Some a"
  shows "0 < slots_from K i ft a"
proof -
  from assms have "fd \<in> set (filter (\<lambda>x. ft x = Some a) [i..OPEN_MAX K - 1])" by simp
  then show ?thesis unfolding slots_from_def by (rule length_pos_if_in_set)
qed

lemma slots_upd:
  assumes "files s = Some ft" "files s' = Some (ft(fd := v))" "0 \<le> fd" "fd < OPEN_MAX K"
  shows "slots K s' a + (if ft fd = Some a then 1 else 0) =
         slots K s a + (if v = Some a then 1 else 0)"
  using slots_from_upd[OF assms(3,4), of ft v a] by (simp add: slots_def assms(1,2))

lemma slots_pos:
  assumes "files s = Some ft" "0 \<le> fd" "fd < OPEN_MAX K" "ft fd = Some a"
  shows "0 < slots K s a"
  using slots_from_pos[of 0 fd K ft a] assms by (simp add: slots_def)

subsection \<open>Refcounts that count the references\<close>

lemma counted_exists:
  assumes "counted K oth s" "0 < slots K s a \<or> 0 < oth a"
  obtains f where "heap s a = Some f" "1 \<le> refs f" "refs f = int (slots K s a) + int (oth a)"
proof (cases "heap s a")
  case None
  with assms(1) have "slots K s a = 0 \<and> oth a = 0"
    unfolding counted_def by (auto split: option.splits dest: spec[of _ a])
  with assms(2) show ?thesis by simp
next
  case (Some f)
  with assms(1) have "1 \<le> refs f \<and> refs f = int (slots K s a) + int (oth a)"
    unfolding counted_def by (auto split: option.splits dest: spec[of _ a])
  with that[OF Some] show ?thesis by blast
qed

lemma counted_Some:
  assumes "counted K oth s" "heap s a = Some f"
  shows "1 \<le> refs f" "refs f = int (slots K s a) + int (oth a)"
  using assms unfolding counted_def by (auto split: option.splits dest: spec[of _ a])

lemma counted_None:
  assumes "counted K oth s" "heap s a = None"
  shows "slots K s a = 0" "oth a = 0"
  using assms unfolding counted_def by (auto split: option.splits dest: spec[of _ a])

lemma countedI:
  assumes "\<And>a. heap s a = None \<Longrightarrow> slots K s a = 0 \<and> oth a = 0"
    "\<And>a f. heap s a = Some f \<Longrightarrow> 1 \<le> refs f \<and> refs f = int (slots K s a) + int (oth a)"
  shows "counted K oth s"
  unfolding counted_def
proof
  fix a
  show "case heap s a of None \<Rightarrow> slots K s a = 0 \<and> oth a = 0
        | Some f \<Rightarrow> 1 \<le> refs f \<and> refs f = int (slots K s a) + int (oth a)"
  proof (cases "heap s a")
    case None
    with assms(1)[OF None] show ?thesis by simp
  next
    case (Some f)
    with assms(2)[OF Some] show ?thesis by simp
  qed
qed

lemma counted_release:
  assumes "counted K oth s" "heap s fl = Some f"
    and hp: "heap s' = (if refs f = 1 then (heap s)(fl := None)
                        else (heap s)(fl \<mapsto> f\<lparr>refs := refs f - 1\<rparr>))"
    and cnt: "\<And>a. int (slots K s' a) + int (oth' a) =
                  int (slots K s a) + int (oth a) - (if a = fl then 1 else 0)"
  shows "counted K oth' s'"
proof (rule countedI)
  fix a assume n: "heap s' a = None"
  show "slots K s' a = 0 \<and> oth' a = 0"
  proof (cases "a = fl")
    case True
    with n hp have "refs f = 1" by (auto split: if_splits)
    with counted_Some(2)[OF assms(1,2)] cnt[of fl] True show ?thesis by simp
  next
    case False
    with n hp have "heap s a = None" by (auto split: if_splits)
    from counted_None[OF assms(1) this] cnt[of a] False show ?thesis by simp
  qed
next
  fix a g assume g: "heap s' a = Some g"
  show "1 \<le> refs g \<and> refs g = int (slots K s' a) + int (oth' a)"
  proof (cases "a = fl")
    case True
    with g hp have ne: "refs f \<noteq> 1" and e: "g = f\<lparr>refs := refs f - 1\<rparr>"
      by (auto split: if_splits)
    with counted_Some[OF assms(1,2)] cnt[of fl] True show ?thesis by simp
  next
    case False
    with g hp have "heap s a = Some g" by (auto split: if_splits)
    from counted_Some[OF assms(1) this] cnt[of a] False show ?thesis by simp
  qed
qed






subsection \<open>The functions of file.c keep the refcounts counting the references\<close>

lemma counted_file_close:
  assumes "counted K oth s" "files s = Some ft" "0 \<le> fd" "fd < OPEN_MAX K" "ft fd = Some fl"
  obtains f where "heap s fl = Some f" "1 \<le> refs f"
    "file_close K st fd s =
       Inr (OK (), (if refs f = 1 then destroy_handle fl f s else drop_ref fl f s)
                     \<lparr>files := Some (ft(fd := None))\<rparr>)"
    "counted K oth ((if refs f = 1 then destroy_handle fl f s else drop_ref fl f s)
                     \<lparr>files := Some (ft(fd := None))\<rparr>)"
proof -
  from slots_pos[OF assms(2-5)] have "0 < slots K s fl \<or> 0 < oth fl" by simp
  from counted_exists[OF assms(1) this]
  obtain f where f: "heap s fl = Some f" "1 \<le> refs f" by blast
  let ?s' = "(if refs f = 1 then destroy_handle fl f s else drop_ref fl f s)
                     \<lparr>files := Some (ft(fd := None))\<rparr>"
  have c: "file_close K st fd s = Inr (OK (), ?s')"
  proof (cases "refs f = 1")
    case True
    with file_close_last[OF assms(3,4,2,5) f(1) True, of st] show ?thesis by simp
  next
    case False
    with f(2) have "1 < refs f" by simp
    with file_close_shared[OF assms(3,4,2,5) f(1) this, of st] False show ?thesis by simp
  qed
  have hp: "heap ?s' = (if refs f = 1 then (heap s)(fl := None)
                        else (heap s)(fl \<mapsto> f\<lparr>refs := refs f - 1\<rparr>))"
    by (simp add: destroy_handle_def drop_ref_def)
  have fs: "files ?s' = Some (ft(fd := None))" by simp
  have cnt: "int (slots K ?s' a) + int (oth a) =
             int (slots K s a) + int (oth a) - (if a = fl then 1 else 0)" for a
    using slots_upd[OF assms(2) fs assms(3,4), of a] assms(5) by auto
  have "counted K oth ?s'" by (rule counted_release[OF assms(1) f(1) hp cnt])
  with that[OF f c] show thesis .
qed

lemma counted_file_close_returns:
  assumes "counted K oth s" "files s = Some ft"
  shows "\<exists>r s'. file_close K st fd s = Inr (r, s') \<and> counted K oth s'"
proof (cases "fd < 0 \<or> OPEN_MAX K \<le> fd")
  case True
  from file_close_out_of_range[OF True] assms(1) show ?thesis by blast
next
  case False
  then have rng: "0 \<le> fd" "fd < OPEN_MAX K" by simp_all
  show ?thesis
  proof (cases "ft fd")
    case None
    from file_close_empty_slot[OF assms(2) None] assms(1) show ?thesis by blast
  next
    case (Some fl)
    from counted_file_close[OF assms rng Some, of st] show ?thesis by metis
  qed
qed














subsection \<open>The refcount invariant\<close>










end
